theory Spec2Isabelle
  imports Complex_Main "HOL-Library.Log_Nat"
begin

section \<open>Data model\<close>

text \<open>
  The repository is a breath-hold training assistant: \<^verbatim>\<open>src/lib/tables.ts\<close> generates a
  table of rounds from a personal best, and the React component \<^verbatim>\<open>TrainingController\<close>
  walks a countdown through the phases of each round.  The component exists in two
  revisions: the two-phase one (phases \<^verbatim>\<open>prep\<close> and \<^verbatim>\<open>hold\<close>, with the pseudo-phases
  \<^verbatim>\<open>ready\<close> and \<^verbatim>\<open>finished\<close>) and the three-phase one (\<^verbatim>\<open>prep\<close>, \<^verbatim>\<open>hold\<close>,
  \<^verbatim>\<open>recovery\<close>, \<^verbatim>\<open>finished\<close>).  Definitions of the first carry the suffix \<open>2\<close>, those of
  the second the suffix \<open>3\<close>.
\<close>

text \<open>
  \<^verbatim>\<open>TrainingPhase\<close> with the two session-level values: at run time a phase is one of
  these five strings.
\<close>

datatype TrainingPhase = Prep | Hold | Recovery | Finished | Ready

text \<open>
  A JavaScript value held where the code expects a number.  Reading a property that an
  object does not have yields \<^verbatim>\<open>undefined\<close>, and arithmetic on \<^verbatim>\<open>undefined\<close> yields
  \<^verbatim>\<open>NaN\<close>; both compare \<^verbatim>\<open>false\<close> with every number.
\<close>

datatype jsnum = Num int | Undefined | NaN

text \<open>\<^verbatim>\<open>x === 0\<close>, \<^verbatim>\<open>x <= 0\<close>, \<^verbatim>\<open>x - 1\<close> and \<^verbatim>\<open>x > 1 && x <= 4\<close>.\<close>

fun js_is_zero :: "jsnum \<Rightarrow> bool" where
  "js_is_zero (Num n) = (n = 0)"
| "js_is_zero _ = False"

fun js_le_zero :: "jsnum \<Rightarrow> bool" where
  "js_le_zero (Num n) = (n \<le> 0)"
| "js_le_zero _ = False"

fun js_pred :: "jsnum \<Rightarrow> jsnum" where
  "js_pred (Num n) = Num (n - 1)"
| "js_pred _ = NaN"

fun js_last_seconds :: "jsnum \<Rightarrow> bool" where
  "js_last_seconds (Num n) = (n > 1 \<and> n \<le> 4)"
| "js_last_seconds _ = False"

text \<open>
  \<^verbatim>\<open>TrainingRound\<close>.  The two-phase revision of \<^verbatim>\<open>types.ts\<close> declares the fields
  \<^verbatim>\<open>round\<close>, \<^verbatim>\<open>prep\<close> and \<^verbatim>\<open>hold\<close>; the three-phase revision adds \<^verbatim>\<open>recovery\<close>.
  The objects are built by the generators below, so the field \<open>recovery\<close> is the
  property as the object has it at run time: \<open>None\<close> when the property was never
  assigned.  (The field \<^verbatim>\<open>round\<close> is called \<open>round_no\<close> here, \<open>round\<close> being a constant
  of the library.)
\<close>

record TrainingRound =
  round_no :: int
  prep :: int
  hold :: int
  recovery :: "int option"

text \<open>\<^verbatim>\<open>nextRound[nextPhase]\<close>: the property of a round named by a phase.\<close>

fun round_field :: "TrainingRound \<Rightarrow> TrainingPhase \<Rightarrow> jsnum" where
  "round_field r Prep = Num (prep r)"
| "round_field r Hold = Num (hold r)"
| "round_field r Recovery = (case recovery r of None \<Rightarrow> Undefined | Some n \<Rightarrow> Num n)"
| "round_field r Finished = Undefined"
| "round_field r Ready = Undefined"

text \<open>\<^verbatim>\<open>tableData[i]\<close>: \<^verbatim>\<open>undefined\<close> (here \<open>None\<close>) past the end of the array.\<close>

definition array_get :: "'a list \<Rightarrow> nat \<Rightarrow> 'a option" where
  "array_get xs i = (if i < length xs then Some (xs ! i) else None)"


section \<open>Table generator (\<^verbatim>\<open>src/lib/tables.ts\<close>)\<close>

text \<open>
  A JavaScript number is an IEEE 754 double, and every arithmetic operation returns the
  double nearest to the exact result, a tie going to the even significand.  The numbers
  of the generators are integers, and one product with \<^verbatim>\<open>0.60\<close> or \<^verbatim>\<open>0.5\<close>; they are far
  from the ends of the exponent range (the personal best is taken below \<open>10\<^sup>3\<^sup>0\<^sup>0\<close>), so
  rounding only cuts the significand to 53 bits.  An integer-valued double is modelled by
  its value, an \<open>int\<close>, and the rounding by \<open>round53\<close>: an integer of more than 53 bits
  loses its low bits.
\<close>

definition round_half_even :: "int \<Rightarrow> int \<Rightarrow> int" where
  "round_half_even n m =
     (let q = n div m; r = n mod m
      in if 2 * r < m then q
         else if m < 2 * r then q + 1
         else if even q then q else q + 1)"

definition round53 :: "int \<Rightarrow> int" where
  "round53 n =
     (if bitlen \<bar>n\<bar> \<le> 53 then n
      else round_half_even n (2 ^ nat (bitlen \<bar>n\<bar> - 53)) * 2 ^ nat (bitlen \<bar>n\<bar> - 53))"

text \<open>\<^verbatim>\<open>a + b\<close>, \<^verbatim>\<open>a - b\<close> and \<^verbatim>\<open>a * b\<close> on integer-valued doubles.\<close>

definition js_add :: "int \<Rightarrow> int \<Rightarrow> int" where
  "js_add a b = round53 (a + b)"

definition js_sub :: "int \<Rightarrow> int \<Rightarrow> int" where
  "js_sub a b = round53 (a - b)"

definition js_mul :: "int \<Rightarrow> int \<Rightarrow> int" where
  "js_mul a b = round53 (a * b)"

text \<open>
  \<^verbatim>\<open>a * 0.60\<close> and \<^verbatim>\<open>a * 0.5\<close>.  The literal \<^verbatim>\<open>0.60\<close> is the double
  \<open>5404319552844595 / 2\<^sup>5\<^sup>3\<close> (the nearest to six tenths, a little below it), and \<^verbatim>\<open>0.5\<close> is
  exact; scaling by a power of two does not touch the significand.  The results are not
  integers in general, so they are rationals.
\<close>

definition js_times_0_60 :: "int \<Rightarrow> rat" where
  "js_times_0_60 a = of_int (round53 (a * 5404319552844595)) / 2 ^ 53"

definition js_times_0_5 :: "int \<Rightarrow> rat" where
  "js_times_0_5 a = of_int (round53 a) / 2"

text \<open>
  \<^verbatim>\<open>Math.round\<close>: the integer nearest to its argument, a tie going up; it is exact on every
  double.
\<close>

definition Math_round :: "rat \<Rightarrow> int" where
  "Math_round x = \<lfloor>x + 1 / 2\<rfloor>"

definition NUM_ROUNDS :: int where
  "NUM_ROUNDS = 8"

text \<open>
  The \<^verbatim>\<open>for (let i = 1; i <= NUM_ROUNDS; i++)\<close> loop of \<^verbatim>\<open>generateCo2Table\<close>, pushing one
  round per iteration.  The counter runs from 1 to 9, where \<^verbatim>\<open>i++\<close> and \<^verbatim>\<open>i - 1\<close> are exact.
\<close>

function co2_loop :: "int \<Rightarrow> int \<Rightarrow> int \<Rightarrow> int \<Rightarrow> TrainingRound list \<Rightarrow> TrainingRound list" where
  "co2_loop i startPrepTime decreaseStep holdTime table =
     (if i \<le> NUM_ROUNDS
      then co2_loop (i + 1) startPrepTime decreaseStep holdTime
             (table @ [\<lparr>round_no = i,
                         prep = max 30 (js_sub startPrepTime (js_mul (i - 1) decreaseStep)),
                         hold = holdTime,
                         recovery = None\<rparr>])
      else table)"
  by pat_completeness auto
termination
  by (relation "measure (\<lambda>(i, _, _, _, _). nat (NUM_ROUNDS + 1 - i))") auto

definition generateCo2Table :: "int \<Rightarrow> TrainingRound list" where
  "generateCo2Table personalBestInSeconds =
     (let holdTime = max 30 (Math_round (js_times_0_60 personalBestInSeconds));
          startPrepTime = js_add holdTime 75;
          decreaseStep = 15
      in co2_loop 1 startPrepTime decreaseStep holdTime [])"

text \<open>The loop of \<^verbatim>\<open>generateO2Table\<close>.\<close>

function o2_loop :: "int \<Rightarrow> int \<Rightarrow> int \<Rightarrow> int \<Rightarrow> TrainingRound list \<Rightarrow> TrainingRound list" where
  "o2_loop i startHoldTime recoveryTime holdIncrement table =
     (if i \<le> NUM_ROUNDS
      then o2_loop (i + 1) startHoldTime recoveryTime holdIncrement
             (table @ [\<lparr>round_no = i,
                         prep = recoveryTime,
                         hold = js_add startHoldTime (js_mul (i - 1) holdIncrement),
                         recovery = None\<rparr>])
      else table)"
  by pat_completeness auto
termination
  by (relation "measure (\<lambda>(i, _, _, _, _). nat (NUM_ROUNDS + 1 - i))") auto

definition generateO2Table :: "int \<Rightarrow> TrainingRound list" where
  "generateO2Table personalBestInSeconds =
     (let startHoldTime = max 45 (Math_round (js_times_0_5 personalBestInSeconds));
          recoveryTime = 120;
          holdIncrement = 10
      in o2_loop 1 startHoldTime recoveryTime holdIncrement [])"


section \<open>The state of \<^verbatim>\<open>TrainingController\<close>\<close>

datatype TableType = Co2 | O2

text \<open>The three sounds: \<^verbatim>\<open>playStartSound\<close>, \<^verbatim>\<open>playEndSound\<close> and \<^verbatim>\<open>playTickSound\<close>.\<close>

datatype Cue = PlayStartSound | PlayEndSound | PlayTickSound

datatype js_error = TypeError

text \<open>
  The component's \<^verbatim>\<open>useState\<close> variables, under their own names, and two more fields:
  \<open>timerId\<close> is the \<^verbatim>\<open>timerId\<close> ref, \<open>None\<close> when no timeout is pending and otherwise the value
  of \<^verbatim>\<open>timeRemaining\<close> that the pending callback's closure captured; \<open>cues\<close> is the log of the
  sounds played so far.  \<open>showAlert\<close> and \<open>alertMessage\<close> exist in the two-phase revision only.
\<close>

record Session =
  tableType :: TableType
  tableData :: "TrainingRound list option"
  isSessionActive :: bool
  currentRoundIndex :: nat
  currentPhase :: TrainingPhase
  timeRemaining :: jsnum
  showStopModal :: bool
  showAlert :: bool
  alertMessage :: string
  timerId :: "jsnum option"
  cues :: "Cue list"

text \<open>
  How React runs the component.  An event handler (or a timeout callback) queues state
  updates; React then renders the component with the new state and, after the render, runs
  every effect one of whose dependencies differs from the previous render, in the order
  of declaration, after the clean-up functions of those effects.  An effect reads the
  state of the render it belongs to (its closure), so an update queued by an earlier
  effect of the same render is not visible to a later one; the queued updates make the
  next render.  This repeats until a render queues no change.  Hence every effect below
  takes two states: \<open>r\<close>, the rendered state it reads, and \<open>u\<close>, the state with the
  updates queued so far, which it extends.  The updates of one handler or callback are
  applied together, in one render.  The timeout is one second long, so it fires only once
  the renders have come to rest.  On mount the effects run on the initial state, in which
  the session is inactive, and change nothing.
\<close>


section \<open>The two-phase controller\<close>

text \<open>The initial values of the \<^verbatim>\<open>useState\<close> variables.\<close>

definition initial2 :: Session where
  "initial2 =
     \<lparr>tableType = Co2, tableData = None, isSessionActive = False, currentRoundIndex = 0,
      currentPhase = Ready, timeRemaining = Num 0, showStopModal = False, showAlert = False,
      alertMessage = [], timerId = None, cues = []\<rparr>"

text \<open>\<^verbatim>\<open>advancePhase\<close> (a \<^verbatim>\<open>useCallback\<close> over \<^verbatim>\<open>currentPhase\<close>, \<^verbatim>\<open>currentRoundIndex\<close>, \<^verbatim>\<open>tableData\<close>).\<close>

definition advancePhase2 :: "Session \<Rightarrow> Session \<Rightarrow> Session" where
  "advancePhase2 r u =
     (case tableData r of
        None \<Rightarrow> u
      | Some T \<Rightarrow>
          if currentPhase r = Hold then
            (if int (currentRoundIndex r) = int (length T) - 1
             then u\<lparr>currentPhase := Finished, isSessionActive := False\<rparr>
             else u\<lparr>currentPhase := Prep, currentRoundIndex := currentRoundIndex u + 1\<rparr>)
          else if currentPhase r = Prep then u\<lparr>currentPhase := Hold\<rparr>
          else u)"

text \<open>
  The first effect (dependencies \<^verbatim>\<open>isSessionActive\<close>, \<^verbatim>\<open>currentPhase\<close>,
  \<^verbatim>\<open>currentRoundIndex\<close>, \<^verbatim>\<open>tableData\<close>): it loads the duration of the phase and plays the
  start sound.
\<close>

definition phaseDeps2 :: "Session \<Rightarrow> bool \<times> TrainingPhase \<times> nat \<times> TrainingRound list option" where
  "phaseDeps2 s = (isSessionActive s, currentPhase s, currentRoundIndex s, tableData s)"

definition phaseEffect2 :: "Session \<Rightarrow> Session \<Rightarrow> Session" where
  "phaseEffect2 r u =
     (case tableData r of
        None \<Rightarrow> u\<lparr>timerId := None\<rparr>
      | Some T \<Rightarrow>
          if \<not> isSessionActive r \<or> currentPhase r = Ready \<or> currentPhase r = Finished
          then u\<lparr>timerId := None\<rparr>
          else (case array_get T (currentRoundIndex r) of
                  None \<Rightarrow> u\<lparr>isSessionActive := False, currentPhase := Finished\<rparr>
                | Some rnd \<Rightarrow>
                    u\<lparr>timeRemaining :=
                        (if currentPhase r = Prep then Num (prep rnd) else Num (hold rnd)),
                      cues := cues u @ [PlayStartSound]\<rparr>))"

text \<open>
  The second effect (dependencies \<^verbatim>\<open>isSessionActive\<close>, \<^verbatim>\<open>timeRemaining\<close>,
  \<^verbatim>\<open>advancePhase\<close>, the last one changing with \<^verbatim>\<open>currentPhase\<close>, \<^verbatim>\<open>currentRoundIndex\<close> and
  \<^verbatim>\<open>tableData\<close>): at 0 it plays the end sound and advances the phase, above 0 it arms the
  one-second timeout.
\<close>

definition countdownDeps2 ::
    "Session \<Rightarrow> bool \<times> jsnum \<times> TrainingPhase \<times> nat \<times> TrainingRound list option" where
  "countdownDeps2 s =
     (isSessionActive s, timeRemaining s, currentPhase s, currentRoundIndex s, tableData s)"

definition countdownEffect2 :: "Session \<Rightarrow> Session \<Rightarrow> Session" where
  "countdownEffect2 r u =
     (if \<not> isSessionActive r \<or> js_le_zero (timeRemaining r)
      then (if js_is_zero (timeRemaining r) \<and> isSessionActive r
            then advancePhase2 r (u\<lparr>cues := cues u @ [PlayEndSound]\<rparr>)
            else u)\<lparr>timerId := None\<rparr>
      else u\<lparr>timerId := Some (timeRemaining r)\<rparr>)"

text \<open>
  The effects of one render: \<open>p\<close> is the previous render's state, \<open>r\<close> the state rendered
  now.  The clean-up of the second effect clears the pending timeout (a pending timeout
  was armed by that effect's last run, which returned the clean-up).
\<close>

definition commit2 :: "Session \<Rightarrow> Session \<Rightarrow> Session" where
  "commit2 p r =
     (let u0 = (if countdownDeps2 p \<noteq> countdownDeps2 r then r\<lparr>timerId := None\<rparr> else r);
          u1 = (if phaseDeps2 p \<noteq> phaseDeps2 r then phaseEffect2 r u0 else u0)
      in if countdownDeps2 p \<noteq> countdownDeps2 r then countdownEffect2 r u1 else u1)"

text \<open>
  A bound on the number of renders still to come, for the termination of the render
  loop: every round of effects either leaves the state as it is, or only loads a
  duration, or moves the session forward in the table.
\<close>

definition renders_left2 :: "Session \<times> Session \<Rightarrow> nat" where
  "renders_left2 = (\<lambda>(p, r).
     if phaseDeps2 p = phaseDeps2 r \<and> countdownDeps2 p = countdownDeps2 r then 0
     else if \<not> isSessionActive r \<or> currentPhase r = Ready \<or> currentPhase r = Finished then 1
     else (case tableData r of
             None \<Rightarrow> 1
           | Some T \<Rightarrow>
               if length T \<le> currentRoundIndex r
               then (if phaseDeps2 p \<noteq> phaseDeps2 r then 2 else 3)
               else 4 + 3 * (2 * (length T - currentRoundIndex r)
                             - (if currentPhase r = Hold then 1 else 0))
                      + (if phaseDeps2 p \<noteq> phaseDeps2 r then 2 else 1)))"

text \<open>
  The effects of one render, case by case, as far as the dependencies of the next render
  are concerned; then the bound decreases with every render.
\<close>

lemma js_is_zero_iff: "js_is_zero x \<longleftrightarrow> x = Num 0"
  by (cases x) auto

lemmas effect2_simps = phaseEffect2_def countdownEffect2_def advancePhase2_def array_get_def
  js_is_zero_iff

lemma countdownDeps2_phaseDeps2:
  "countdownDeps2 p = countdownDeps2 r \<Longrightarrow> phaseDeps2 p = phaseDeps2 r"
  by (simp add: phaseDeps2_def countdownDeps2_def)

lemma commit2_cases:
  assumes "\<not> (phaseDeps2 p = phaseDeps2 r \<and> countdownDeps2 p = countdownDeps2 r)"
  shows "(phaseDeps2 p \<noteq> phaseDeps2 r \<and>
            commit2 p r = countdownEffect2 r (phaseEffect2 r (r\<lparr>timerId := None\<rparr>))) \<or>
         (phaseDeps2 p = phaseDeps2 r \<and>
            commit2 p r = countdownEffect2 r (r\<lparr>timerId := None\<rparr>))"
  using assms countdownDeps2_phaseDeps2 [of p r] by (auto simp: commit2_def Let_def)

lemma effects2_idle:
  assumes "\<not> isSessionActive r \<or> tableData r = None \<or> currentPhase r = Ready \<or> currentPhase r = Finished"
  shows "countdownDeps2 (countdownEffect2 r (phaseEffect2 r (r\<lparr>timerId := None\<rparr>))) = countdownDeps2 r"
    and "countdownDeps2 (countdownEffect2 r (r\<lparr>timerId := None\<rparr>)) = countdownDeps2 r"
  using assms
  by (auto simp add: effect2_simps countdownDeps2_def split: option.split)

lemma effects2_invalid_index:
  assumes "isSessionActive r" "tableData r = Some T" "currentPhase r \<noteq> Ready"
    "currentPhase r \<noteq> Finished" "\<not> currentRoundIndex r < length T"
  shows "\<not> isSessionActive (countdownEffect2 r (phaseEffect2 r (r\<lparr>timerId := None\<rparr>)))"
  using assms by (simp add: effect2_simps)

lemma countdown2_invalid_index:
  assumes "isSessionActive r" "tableData r = Some T" "\<not> currentRoundIndex r < length T"
   and "r' = countdownEffect2 r (r\<lparr>timerId := None\<rparr>)"
  shows "countdownDeps2 r' = countdownDeps2 r \<or>
     (isSessionActive r' \<and> tableData r' = Some T \<and> currentPhase r' \<noteq> currentPhase r \<and>
      currentPhase r' \<noteq> Ready \<and> currentPhase r' \<noteq> Finished \<and>
      \<not> currentRoundIndex r' < length T)"
  using assms by (auto simp add: effect2_simps countdownDeps2_def)

lemma effects2_no_advance:
  assumes "isSessionActive r" "tableData r = Some T" "currentRoundIndex r < length T"
    "\<not> (timeRemaining r = Num 0 \<and> (currentPhase r = Prep \<or> currentPhase r = Hold))"
  shows "phaseDeps2 (countdownEffect2 r (phaseEffect2 r (r\<lparr>timerId := None\<rparr>))) = phaseDeps2 r"
    and "countdownDeps2 (countdownEffect2 r (r\<lparr>timerId := None\<rparr>)) = countdownDeps2 r"
  using assms
  by (auto simp add: effect2_simps countdownDeps2_def phaseDeps2_def)

lemma effects2_last_hold:
  assumes "isSessionActive r" "tableData r = Some T" "currentRoundIndex r < length T"
    "timeRemaining r = Num 0" "currentPhase r = Hold"
    "int (currentRoundIndex r) = int (length T) - 1"
  shows "\<not> isSessionActive (countdownEffect2 r (phaseEffect2 r (r\<lparr>timerId := None\<rparr>)))"
    and "\<not> isSessionActive (countdownEffect2 r (r\<lparr>timerId := None\<rparr>))"
  using assms
  by (simp_all add: effect2_simps)

lemma effects2_advance:
  assumes "isSessionActive r" "tableData r = Some T" "currentRoundIndex r < length T"
    "timeRemaining r = Num 0" "currentPhase r = Prep \<or> currentPhase r = Hold"
    "\<not> (currentPhase r = Hold \<and> int (currentRoundIndex r) = int (length T) - 1)"
    and "r' = countdownEffect2 r (phaseEffect2 r (r\<lparr>timerId := None\<rparr>)) \<or>
         r' = countdownEffect2 r (r\<lparr>timerId := None\<rparr>)"
  shows "isSessionActive r' \<and> tableData r' = Some T \<and> currentRoundIndex r' < length T \<and>
     2 * (length T - currentRoundIndex r') - (if currentPhase r' = Hold then 1 else 0)
       < 2 * (length T - currentRoundIndex r) - (if currentPhase r = Hold then 1 else (0::nat))"
  using assms
  by (auto simp add: effect2_simps)


lemma renders_left2_decreases:
  assumes neq: "\<not> (phaseDeps2 p = phaseDeps2 r \<and> countdownDeps2 p = countdownDeps2 r)"
  shows "renders_left2 (r, commit2 p r) < renders_left2 (p, r)"
proof -
  define r' where "r' = commit2 p r"
  define e12 where "e12 = countdownEffect2 r (phaseEffect2 r (r\<lparr>timerId := None\<rparr>))"
  define e2 where "e2 = countdownEffect2 r (r\<lparr>timerId := None\<rparr>)"
  from commit2_cases [OF neq]
  have r'_cases: "(phaseDeps2 p \<noteq> phaseDeps2 r \<and> r' = e12) \<or> (phaseDeps2 p = phaseDeps2 r \<and> r' = e2)"
    by (simp add: r'_def e12_def e2_def)
  have pos: "0 < renders_left2 (p, r)"
    using neq by (simp add: renders_left2_def split: option.split)
  have same: "renders_left2 (r, r') = 0" if "countdownDeps2 r' = countdownDeps2 r"
    using that countdownDeps2_phaseDeps2 [of r' r] by (simp add: renders_left2_def)
  have idle: "renders_left2 (r, r') \<le> 1" if "\<not> isSessionActive r'"
    using that by (simp add: renders_left2_def)
  have "renders_left2 (r, r') < renders_left2 (p, r)"
  proof (cases "isSessionActive r \<and> tableData r \<noteq> None
                \<and> currentPhase r \<noteq> Ready \<and> currentPhase r \<noteq> Finished")
    case False
    then have "\<not> isSessionActive r \<or> tableData r = None \<or> currentPhase r = Ready \<or> currentPhase r = Finished"
      by blast
    from effects2_idle [OF this] r'_cases have "countdownDeps2 r' = countdownDeps2 r"
      unfolding e12_def e2_def by auto
    with same pos show ?thesis
      by simp
  next
    case True
    then obtain T where a: "isSessionActive r" and t: "tableData r = Some T"
      and ph: "currentPhase r \<noteq> Ready" "currentPhase r \<noteq> Finished"
      by auto
    show ?thesis
    proof (cases "currentRoundIndex r < length T")
      case invalid: False
      from r'_cases show ?thesis
      proof (elim disjE conjE)
        assume c1: "phaseDeps2 p \<noteq> phaseDeps2 r" and "r' = e12"
        with effects2_invalid_index [OF a t ph invalid] have "\<not> isSessionActive r'"
          by (simp add: e12_def)
        moreover from c1 a t ph invalid have "renders_left2 (p, r) = 2"
          by (simp add: renders_left2_def)
        ultimately show ?thesis
          using idle by simp
      next
        assume c1: "phaseDeps2 p = phaseDeps2 r" and r': "r' = e2"
        with a t ph invalid neq have m: "renders_left2 (p, r) = 3"
          by (simp add: renders_left2_def)
        from countdown2_invalid_index [OF a t invalid r' [unfolded e2_def]] show ?thesis
        proof
          assume "countdownDeps2 r' = countdownDeps2 r"
          with same m show ?thesis
            by simp
        next
          assume "isSessionActive r' \<and> tableData r' = Some T \<and> currentPhase r' \<noteq> currentPhase r \<and>
            currentPhase r' \<noteq> Ready \<and> currentPhase r' \<noteq> Finished \<and>
            \<not> currentRoundIndex r' < length T"
          then have "renders_left2 (r, r') = 2"
            by (auto simp add: renders_left2_def phaseDeps2_def)
          with m show ?thesis
            by simp
        qed
      qed
    next
      case valid: True
      define flag :: nat where "flag = (if phaseDeps2 p \<noteq> phaseDeps2 r then 2 else 1)"
      define rank :: "Session \<Rightarrow> nat"
        where "rank s = 2 * (length T - currentRoundIndex s) - (if currentPhase s = Hold then 1 else 0)" for s
      from a t ph valid neq have m: "renders_left2 (p, r) = 4 + 3 * rank r + flag"
        by (simp add: renders_left2_def flag_def rank_def)
      have bound: "renders_left2 (r, s) \<le> 4 + 3 * rank s + 2"
        if "isSessionActive s" "tableData s = Some T" "currentRoundIndex s < length T" for s
        using that by (simp add: renders_left2_def rank_def)
      show ?thesis
      proof (cases "timeRemaining r = Num 0 \<and> (currentPhase r = Prep \<or> currentPhase r = Hold)")
        case False
        from r'_cases show ?thesis
        proof (elim disjE conjE)
          assume c1: "phaseDeps2 p = phaseDeps2 r" and "r' = e2"
          with effects2_no_advance(2) [OF a t valid False] have "countdownDeps2 r' = countdownDeps2 r"
            by (simp add: e2_def)
          with same pos show ?thesis
            by simp
        next
          assume c1: "phaseDeps2 p \<noteq> phaseDeps2 r" and "r' = e12"
          with effects2_no_advance(1) [OF a t valid False] have keep: "phaseDeps2 r' = phaseDeps2 r"
            by (simp add: e12_def)
          then have "isSessionActive r' = isSessionActive r" "currentPhase r' = currentPhase r"
            "currentRoundIndex r' = currentRoundIndex r" "tableData r' = tableData r"
            by (simp_all add: phaseDeps2_def)
          with keep a t ph valid have "renders_left2 (r, r') \<le> 4 + 3 * rank r + 1"
            by (simp add: renders_left2_def rank_def)
          with c1 m show ?thesis
            by (simp add: flag_def)
        qed
      next
        case zero: True
        show ?thesis
        proof (cases "currentPhase r = Hold \<and> int (currentRoundIndex r) = int (length T) - 1")
          case True
          with zero have "timeRemaining r = Num 0" "currentPhase r = Hold"
            "int (currentRoundIndex r) = int (length T) - 1"
            by simp_all
          from effects2_last_hold [OF a t valid this] r'_cases have "\<not> isSessionActive r'"
            unfolding e12_def e2_def by auto
          with idle m show ?thesis
            by simp
        next
          case False
          from r'_cases have "r' = countdownEffect2 r (phaseEffect2 r (r\<lparr>timerId := None\<rparr>)) \<or>
              r' = countdownEffect2 r (r\<lparr>timerId := None\<rparr>)"
            unfolding e12_def e2_def by blast
          from effects2_advance [OF a t valid conjunct1 [OF zero] conjunct2 [OF zero] False this]
          have r': "isSessionActive r'" "tableData r' = Some T" "currentRoundIndex r' < length T"
            "rank r' < rank r"
            unfolding rank_def by simp_all
          from bound [OF r'(1-3)] r'(4) m show ?thesis
            by (simp add: flag_def)
        qed
      qed
    qed
  qed
  then show ?thesis
    by (simp add: r'_def)
qed

text \<open>The renders that follow a change of state, until no effect has anything to do.\<close>

function settle2 :: "Session \<Rightarrow> Session \<Rightarrow> Session" where
  "settle2 p r =
     (if phaseDeps2 p = phaseDeps2 r \<and> countdownDeps2 p = countdownDeps2 r then r
      else settle2 r (commit2 p r))"
  by pat_completeness auto
termination
  by (relation "measure renders_left2") (simp_all add: renders_left2_decreases)

declare settle2.simps [simp del]

text \<open>\<^verbatim>\<open>resetSessionState\<close>, \<^verbatim>\<open>onSubmit\<close>, \<^verbatim>\<open>startSession\<close>, \<^verbatim>\<open>stopSession\<close>.\<close>

definition resetSessionState2 :: "Session \<Rightarrow> Session" where
  "resetSessionState2 s =
     s\<lparr>isSessionActive := False, currentRoundIndex := 0, currentPhase := Ready,
       timeRemaining := Num 0, timerId := None\<rparr>"

text \<open>
  The two messages are those of the source, with \<open>CO2\<close> and \<open>O2\<close> written without the
  subscript.
\<close>

definition onSubmit2 :: "int \<Rightarrow> Session \<Rightarrow> Session" where
  "onSubmit2 pb s =
     (if tableType s = Co2 \<and> pb < 30
      then s\<lparr>alertMessage :=
               ''Please enter a comfortable Personal Best time of at least 30 seconds for CO2 tables.'',
             showAlert := True\<rparr>
      else if tableType s = O2 \<and> pb < 60
      then s\<lparr>alertMessage :=
               ''O2 tables are dangerous. Please enter a Personal Best time of at least 60 seconds to ensure you are experienced enough.'',
             showAlert := True\<rparr>
      else resetSessionState2
             (s\<lparr>tableData :=
                  Some (if tableType s = Co2 then generateCo2Table pb else generateO2Table pb)\<rparr>))"

text \<open>
  \<^verbatim>\<open>startSession\<close> awaits \<^verbatim>\<open>Tone.start()\<close> before its three updates; the audio context is
  outside the model and the promise is taken to resolve.
\<close>

definition startSession2 :: "Session \<Rightarrow> Session" where
  "startSession2 s =
     (case tableData s of
        None \<Rightarrow> s
      | Some T \<Rightarrow> s\<lparr>isSessionActive := True, currentRoundIndex := 0, currentPhase := Prep\<rparr>)"

definition stopSession2 :: "Session \<Rightarrow> Session" where
  "stopSession2 s =
     (resetSessionState2 (s\<lparr>isSessionActive := False, showStopModal := False\<rparr>))
       \<lparr>tableData := None\<rparr>"

text \<open>
  The callback of the timeout: \<^verbatim>\<open>setTimeRemaining(t => t - 1)\<close>, and the tick sound when
  the captured \<^verbatim>\<open>timeRemaining\<close> is in the last seconds.  Without a pending timeout nothing
  happens.
\<close>

definition timeout2 :: "Session \<Rightarrow> Session" where
  "timeout2 s =
     (case timerId s of
        None \<Rightarrow> s
      | Some c \<Rightarrow>
          s\<lparr>timeRemaining := js_pred (timeRemaining s),
            cues := cues s @ (if js_last_seconds c then [PlayTickSound] else []),
            timerId := None\<rparr>)"

text \<open>The events as the user and the clock see them: the handler, then the renders.\<close>

definition submit2 :: "int \<Rightarrow> Session \<Rightarrow> Session" where
  "submit2 pb s = settle2 s (onSubmit2 pb s)"

definition start2 :: "Session \<Rightarrow> Session" where
  "start2 s = settle2 s (startSession2 s)"

definition stop2 :: "Session \<Rightarrow> Session" where
  "stop2 s = settle2 s (stopSession2 s)"

definition tick2 :: "Session \<Rightarrow> Session" where
  "tick2 s = settle2 s (timeout2 s)"


section \<open>The three-phase controller\<close>

definition initial3 :: Session where
  "initial3 =
     \<lparr>tableType = Co2, tableData = None, isSessionActive = False, currentRoundIndex = 0,
      currentPhase = Prep, timeRemaining = Num 0, showStopModal = False, showAlert = False,
      alertMessage = [], timerId = None, cues = []\<rparr>"

text \<open>
  \<^verbatim>\<open>advancePhase\<close>.  \<^verbatim>\<open>nextRoundIndex\<close> is incremented only when the phase that ends is
  \<^verbatim>\<open>recovery\<close>; the test of \<^verbatim>\<open>tableData[nextRoundIndex].recovery === 0\<close> is reached only
  when the index is inside the table.
\<close>

definition nextPhase3 :: "TrainingPhase \<Rightarrow> TrainingPhase" where
  "nextPhase3 ph =
     (if ph = Prep then Hold
      else if ph = Hold then Recovery
      else if ph = Recovery then Prep
      else ph)"

definition nextRoundIndex3 :: "TrainingPhase \<Rightarrow> nat \<Rightarrow> nat" where
  "nextRoundIndex3 ph i = (if ph = Recovery then i + 1 else i)"

definition advancePhase3 :: "Session \<Rightarrow> Session \<Rightarrow> Session" where
  "advancePhase3 r u =
     (case tableData r of
        None \<Rightarrow> u
      | Some T \<Rightarrow>
          (let nextPhase = nextPhase3 (currentPhase r);
               nextRoundIndex = nextRoundIndex3 (currentPhase r) (currentRoundIndex r)
           in if length T \<le> nextRoundIndex
                 \<or> (recovery (T ! nextRoundIndex) = Some 0 \<and> currentPhase r = Hold)
              then u\<lparr>isSessionActive := False, currentPhase := Finished\<rparr>
              else (let nextRound = T ! nextRoundIndex;
                        nextDuration = round_field nextRound nextPhase
                    in u\<lparr>currentPhase := nextPhase,
                         currentRoundIndex := nextRoundIndex,
                         timeRemaining := nextDuration,
                         cues := cues u @ [PlayStartSound]\<rparr>)))"

text \<open>
  The two effects.  Their dependency lists contain \<^verbatim>\<open>playEndSound\<close> and \<^verbatim>\<open>playTickSound\<close>,
  functions created anew by every render, so both effects run after every render.
\<close>

definition endEffect3 :: "Session \<Rightarrow> Session \<Rightarrow> Session" where
  "endEffect3 r u =
     (if isSessionActive r \<and> js_is_zero (timeRemaining r)
      then advancePhase3 r (u\<lparr>cues := cues u @ [PlayEndSound]\<rparr>)
      else u)"

definition timerEffect3 :: "Session \<Rightarrow> Session \<Rightarrow> Session" where
  "timerEffect3 r u =
     (if \<not> isSessionActive r \<or> js_le_zero (timeRemaining r)
      then u\<lparr>timerId := None\<rparr>
      else u\<lparr>timerId := Some (timeRemaining r)\<rparr>)"

definition commit3 :: "Session \<Rightarrow> Session" where
  "commit3 r = timerEffect3 r (endEffect3 r (r\<lparr>timerId := None\<rparr>))"

text \<open>The \<^verbatim>\<open>useState\<close> variables of this revision: a render follows when one of them changed.\<close>

definition reactState3 ::
    "Session \<Rightarrow> TableType \<times> TrainingRound list option \<times> bool \<times> nat \<times> TrainingPhase \<times> jsnum \<times> bool" where
  "reactState3 s =
     (tableType s, tableData s, isSessionActive s, currentRoundIndex s, currentPhase s,
      timeRemaining s, showStopModal s)"

definition rank3 :: "TrainingPhase \<Rightarrow> nat" where
  "rank3 ph = (if ph = Hold then 1 else if ph = Recovery then 2 else 0)"

definition renders_left3 :: "Session \<times> Session \<Rightarrow> nat" where
  "renders_left3 = (\<lambda>(p, r).
     if reactState3 p = reactState3 r then 0
     else if isSessionActive r \<and> timeRemaining r = Num 0
     then (case tableData r of
             None \<Rightarrow> 1
           | Some T \<Rightarrow> 2 + (3 * (length T - currentRoundIndex r) - rank3 (currentPhase r)))
     else 1)"

lemma commit3_rest:
  assumes "\<not> (isSessionActive r \<and> timeRemaining r = Num 0 \<and> tableData r \<noteq> None)"
  shows "reactState3 (commit3 r) = reactState3 r"
  using assms
  by (auto simp: commit3_def timerEffect3_def endEffect3_def advancePhase3_def reactState3_def
      js_is_zero_iff split: option.split)

lemma commit3_advance:
  assumes "isSessionActive r" "timeRemaining r = Num 0" "tableData r = Some T"
  shows "\<not> isSessionActive (commit3 r) \<or> timeRemaining (commit3 r) \<noteq> Num 0 \<or>
         (tableData (commit3 r) = Some T \<and>
          3 * (length T - currentRoundIndex (commit3 r)) - rank3 (currentPhase (commit3 r))
            < 3 * (length T - currentRoundIndex r) - rank3 (currentPhase r))"
  using assms
  by (cases "currentPhase r")
     (auto simp: commit3_def timerEffect3_def endEffect3_def advancePhase3_def Let_def
        nextPhase3_def nextRoundIndex3_def rank3_def js_is_zero_iff)

lemma renders_left3_decreases:
  assumes neq: "reactState3 p \<noteq> reactState3 r"
  shows "renders_left3 (r, commit3 r) < renders_left3 (p, r)"
proof (cases "isSessionActive r \<and> timeRemaining r = Num 0 \<and> tableData r \<noteq> None")
  case False
  then have "renders_left3 (r, commit3 r) = 0"
    using commit3_rest [of r] by (simp add: renders_left3_def)
  moreover from neq have "0 < renders_left3 (p, r)"
    by (simp add: renders_left3_def split: option.split)
  ultimately show ?thesis
    by simp
next
  case True
  then obtain T where a: "isSessionActive r" "timeRemaining r = Num 0" "tableData r = Some T"
    by auto
  with neq have m: "renders_left3 (p, r) =
      2 + (3 * (length T - currentRoundIndex r) - rank3 (currentPhase r))"
    by (simp add: renders_left3_def)
  from commit3_advance [OF a] show ?thesis
  proof (elim disjE conjE)
    assume "\<not> isSessionActive (commit3 r)"
    then have "renders_left3 (r, commit3 r) \<le> 1"
      by (simp add: renders_left3_def)
    with m show ?thesis
      by simp
  next
    assume "timeRemaining (commit3 r) \<noteq> Num 0"
    then have "renders_left3 (r, commit3 r) \<le> 1"
      by (simp add: renders_left3_def)
    with m show ?thesis
      by simp
  next
    assume "tableData (commit3 r) = Some T"
      and less: "3 * (length T - currentRoundIndex (commit3 r)) - rank3 (currentPhase (commit3 r))
            < 3 * (length T - currentRoundIndex r) - rank3 (currentPhase r)"
    then have "renders_left3 (r, commit3 r)
        \<le> 2 + (3 * (length T - currentRoundIndex (commit3 r)) - rank3 (currentPhase (commit3 r)))"
      by (simp add: renders_left3_def)
    with less m show ?thesis
      by simp
  qed
qed

function settle3 :: "Session \<Rightarrow> Session \<Rightarrow> Session" where
  "settle3 p r = (if reactState3 p = reactState3 r then r else settle3 r (commit3 r))"
  by pat_completeness auto
termination
  by (relation "measure renders_left3") (simp_all add: renders_left3_decreases)

declare settle3.simps [simp del]

text \<open>
  \<^verbatim>\<open>onSubmit\<close> (the form's schema asks for a total above 0 and below 600 seconds, and
  nothing else), \<^verbatim>\<open>startSession\<close>, \<^verbatim>\<open>stopSession\<close>.
\<close>

definition onSubmit3 :: "int \<Rightarrow> int \<Rightarrow> Session \<Rightarrow> Session" where
  "onSubmit3 minutes seconds s =
     (let totalSeconds = minutes * 60 + seconds;
          newTable = (if tableType s = Co2 then generateCo2Table totalSeconds
                      else generateO2Table totalSeconds)
      in s\<lparr>tableData := Some newTable, isSessionActive := False, currentRoundIndex := 0,
           currentPhase := Prep\<rparr>)"

text \<open>
  \<^verbatim>\<open>startSession\<close> reads \<^verbatim>\<open>tableData[0].prep\<close>: on an empty array this is a property read
  on \<^verbatim>\<open>undefined\<close>, which throws.
\<close>

definition startSession3 :: "Session \<Rightarrow> js_error + Session" where
  "startSession3 s =
     (case tableData s of
        None \<Rightarrow> Inr s
      | Some T \<Rightarrow>
          (case array_get T 0 of
             None \<Rightarrow> Inl TypeError
           | Some first \<Rightarrow>
               Inr (s\<lparr>isSessionActive := True, currentRoundIndex := 0, currentPhase := Prep,
                      timeRemaining := Num (prep first),
                      cues := cues s @ [PlayStartSound]\<rparr>)))"

definition stopSession3 :: "Session \<Rightarrow> Session" where
  "stopSession3 s =
     s\<lparr>isSessionActive := False, showStopModal := False, timerId := None,
       currentRoundIndex := 0, currentPhase := Prep, timeRemaining := Num 0\<rparr>"

text \<open>The callback of the timeout: \<^verbatim>\<open>setTimeRemaining(timeRemaining - 1)\<close> on the captured value.\<close>

definition timeout3 :: "Session \<Rightarrow> Session" where
  "timeout3 s =
     (case timerId s of
        None \<Rightarrow> s
      | Some c \<Rightarrow>
          s\<lparr>timeRemaining := js_pred c,
            cues := cues s @ (if js_last_seconds c then [PlayTickSound] else []),
            timerId := None\<rparr>)"

definition submit3 :: "int \<Rightarrow> int \<Rightarrow> Session \<Rightarrow> Session" where
  "submit3 minutes seconds s = settle3 s (onSubmit3 minutes seconds s)"

definition start3 :: "Session \<Rightarrow> js_error + Session" where
  "start3 s = (case startSession3 s of Inl e \<Rightarrow> Inl e | Inr s' \<Rightarrow> Inr (settle3 s s'))"

definition stop3 :: "Session \<Rightarrow> Session" where
  "stop3 s = settle3 s (stopSession3 s)"

definition tick3 :: "Session \<Rightarrow> Session" where
  "tick3 s = settle3 s (timeout3 s)"


section \<open>Example sessions\<close>

text \<open>A two-round table of the three-phase kind, and a session at the end of its first hold.\<close>

definition example_rounds3 :: "TrainingRound list" where
  "example_rounds3 =
     [\<lparr>round_no = 1, prep = 10, hold = 20, recovery = Some 10\<rparr>,
      \<lparr>round_no = 2, prep = 10, hold = 20, recovery = Some 0\<rparr>]"

definition example_hold3 :: Session where
  "example_hold3 =
     initial3\<lparr>tableData := Some example_rounds3, isSessionActive := True,
              currentRoundIndex := 0, currentPhase := Hold, timeRemaining := Num 0\<rparr>"


text \<open>
  The three-phase controller run on a generated table: a personal best of 1 minute 30
  seconds submitted for the CO2 table, the session started, and \<open>n\<close> timeouts.
\<close>

definition example_run3 :: "nat \<Rightarrow> js_error + Session" where
  "example_run3 n =
     (case start3 (submit3 1 30 initial3) of
        Inl e \<Rightarrow> Inl e
      | Inr s \<Rightarrow> Inr ((tick3 ^^ n) s))"

section \<open>Runs of the two-phase controller: vocabulary\<close>

text \<open>The part of the state that decides how a session goes on.\<close>

definition session_view ::
    "Session \<Rightarrow> TrainingRound list option \<times> bool \<times> TrainingPhase \<times> nat \<times> jsnum \<times> jsnum option" where
  "session_view s =
     (tableData s, isSessionActive s, currentPhase s, currentRoundIndex s, timeRemaining s,
      timerId s)"

text \<open>The duration that the phase effect loads: \<^verbatim>\<open>round.prep\<close> for prep, \<^verbatim>\<open>round.hold\<close> otherwise.\<close>

definition duration2 :: "TrainingRound list \<Rightarrow> TrainingPhase \<Rightarrow> nat \<Rightarrow> int" where
  "duration2 T ph i = (if ph = Prep then prep (T ! i) else hold (T ! i))"

text \<open>The seconds of the table that lie after phase \<open>ph\<close> of round \<open>i\<close>, and of the whole table.\<close>

definition later2 :: "TrainingRound list \<Rightarrow> TrainingPhase \<Rightarrow> nat \<Rightarrow> int" where
  "later2 T ph i =
     (if ph = Prep then hold (T ! i) else 0)
       + (\<Sum>j = Suc i..<length T. prep (T ! j) + hold (T ! j))"

definition total2 :: "TrainingRound list \<Rightarrow> int" where
  "total2 T = (\<Sum>j = 0..<length T. prep (T ! j) + hold (T ! j))"

text \<open>The data model's condition on a table: no negative duration.\<close>

definition nonneg_table :: "TrainingRound list \<Rightarrow> bool" where
  "nonneg_table T \<longleftrightarrow> (\<forall>rnd \<in> set T. 0 \<le> prep rnd \<and> 0 \<le> hold rnd)"

text \<open>A session that has ended: finished, inactive, no timeout pending.\<close>

definition done2 :: "Session \<Rightarrow> bool" where
  "done2 s \<longleftrightarrow> \<not> isSessionActive s \<and> currentPhase s = Finished \<and> timerId s = None"

text \<open>
  The states met between a change and the moment the renders come to rest: an active
  session inside the table, with a bound \<open>B\<close> on the seconds it can still take.  When the
  phase has just changed, the countdown shown is the stale one and the bound counts the
  whole phase; otherwise it counts the seconds left.
\<close>

definition config2 :: "TrainingRound list \<Rightarrow> Session \<Rightarrow> Session \<Rightarrow> int \<Rightarrow> bool" where
  "config2 T p r B \<longleftrightarrow>
     (\<exists>ph i k tm.
        session_view r = (Some T, True, ph, i, Num k, tm) \<and> (ph = Prep \<or> ph = Hold) \<and>
        i < length T \<and> 0 \<le> k \<and>
        (if phaseDeps2 p \<noteq> phaseDeps2 r then duration2 T ph i + later2 T ph i \<le> B
         else k \<le> duration2 T ph i \<and> k + later2 T ph i \<le> B \<and>
              (countdownDeps2 p = countdownDeps2 r \<longrightarrow> 0 < k \<and> tm = Some (Num k))))"

text \<open>
  What the renders come to rest in: an ended session, or a session counting down inside
  the table with the timeout armed, at most \<open>B\<close> seconds from the end.
\<close>

definition outcome2 :: "TrainingRound list \<Rightarrow> Session \<Rightarrow> int \<Rightarrow> bool" where
  "outcome2 T s B \<longleftrightarrow>
     tableData s = Some T \<and>
     (done2 s \<or>
      (\<exists>ph i k.
         session_view s = (Some T, True, ph, i, Num k, Some (Num k)) \<and> (ph = Prep \<or> ph = Hold) \<and>
         i < length T \<and> 0 < k \<and> k \<le> duration2 T ph i \<and> k + later2 T ph i \<le> B))"


section \<open>Properties of the generator\<close>

text \<open>
  An integer of at most 53 bits is a double; rounding a longer one moves it by at most
  half a unit of its last kept bit.
\<close>

lemma round53_exact: "\<bar>n\<bar> < 2 ^ 53 \<Longrightarrow> round53 n = n"
proof -
  assume "\<bar>n\<bar> < 2 ^ 53"
  then have "bitlen \<bar>n\<bar> \<le> 53"
    by (simp add: bitlen_le_iff_power)
  then show ?thesis
    by (simp add: round53_def)
qed

lemma round_half_even_error:
  assumes "0 < m"
  shows "2 * \<bar>round_half_even n m * m - n\<bar> \<le> m"
proof -
  define q r where "q = n div m" and "r = n mod m"
  have n: "n = q * m + r"
    by (simp add: q_def r_def)
  from assms have r: "0 \<le> r" "r < m"
    by (simp_all add: r_def)
  have "round_half_even n m = (if 2 * r < m then q else if m < 2 * r then q + 1
      else if even q then q else q + 1)"
    by (simp add: round_half_even_def q_def r_def Let_def)
  with n r show ?thesis
    by (auto simp: algebra_simps)
qed

lemma round53_error:
  assumes "0 < n" "n < 2 ^ (53 + k)"
  shows "2 * \<bar>round53 n - n\<bar> \<le> 2 ^ k"
proof (cases "bitlen \<bar>n\<bar> \<le> 53")
  case True
  then show ?thesis
    by (simp add: round53_def)
next
  case False
  define d where "d = nat (bitlen \<bar>n\<bar> - 53)"
  from assms have "\<bar>n\<bar> < 2 ^ (53 + k)"
    by simp
  then have "bitlen \<bar>n\<bar> \<le> int (53 + k)"
    unfolding bitlen_le_iff_power nat_int by simp
  then have "d \<le> k"
    by (simp add: d_def)
  then have p: "(2::int) ^ d \<le> 2 ^ k"
    by simp
  from False have eq: "round53 n = round_half_even n (2 ^ d) * 2 ^ d"
    by (simp add: round53_def d_def)
  have "2 * \<bar>round_half_even n (2 ^ d) * 2 ^ d - n\<bar> \<le> 2 ^ d"
    by (rule round_half_even_error) simp
  then have "2 * \<bar>round_half_even n (2 ^ d) * 2 ^ d - n\<bar> \<le> 2 ^ k"
    using p by (rule order_trans)
  then show ?thesis
    by (simp only: eq)
qed

text \<open>
  \<^verbatim>\<open>Math.round(pb * 0.60)\<close> is the integer nearest to six tenths of \<open>pb\<close> as long as
  \<open>pb \<le> 2\<^sup>5\<^sup>0\<close>: the product is off by less than \<open>0.09\<close>, and six tenths of an integer are
  at least \<open>0.1\<close> away from a tie.
\<close>

lemma div_int_between:
  fixes a b h :: int
  assumes "h * b \<le> a" "a < (h + 1) * b"
  shows "a div b = h"
proof -
  define c where "c = a - h * b"
  from assms have c: "0 \<le> c" "c < b"
    by (simp_all add: c_def algebra_simps)
  have "a = c + h * b"
    by (simp add: c_def)
  then have "a div b = (c + h * b) div b"
    by simp
  also from c have "\<dots> = c div b + h"
    by simp
  also from c have "c div b = 0"
    by (simp add: div_pos_pos_trivial)
  finally show ?thesis
    by simp
qed

lemma Math_round_dyadic: "Math_round (of_int n / 2 ^ 53) = (2 * n + 2 ^ 53) div 2 ^ 54"
proof -
  have "of_int n / (2 ^ 53 :: rat) + 1 / 2 = of_int (2 * n + 2 ^ 53) / of_int (2 ^ 54)"
    by simp
  then show ?thesis
    unfolding Math_round_def by (simp only: floor_divide_of_int_eq)
qed

lemma Math_round_times_0_60:
  assumes "0 < pb" "pb \<le> 2 ^ 50"
  shows "Math_round (js_times_0_60 pb) = (6 * pb + 5) div 10"
proof -
  define n where "n = pb * 5404319552844595"
  define n' where "n' = round53 n"
  define h where "h = (6 * pb + 5) div 10"
  define r where "r = (6 * pb + 5) mod 10"
  have hr: "6 * pb + 5 = 10 * h + r" "1 \<le> r" "r \<le> 9"
    unfolding h_def r_def by presburger+
  from assms have n: "0 < n" "n < 2 ^ (53 + 50)"
    by (simp_all add: n_def)
  from round53_error [OF n] have e: "2 * \<bar>n' - n\<bar> \<le> 2 ^ 50"
    by (simp add: n'_def)
  have "h * 2 ^ 54 \<le> 2 * n' + 2 ^ 53" "2 * n' + 2 ^ 53 < (h + 1) * 2 ^ 54"
    using e hr assms unfolding n_def by simp_all
  then have "(2 * n' + 2 ^ 53) div 2 ^ 54 = h"
    by (rule div_int_between)
  moreover have "Math_round (js_times_0_60 pb) = (2 * n' + 2 ^ 53) div 2 ^ 54"
    by (simp only: js_times_0_60_def Math_round_dyadic n'_def n_def)
  ultimately show ?thesis
    by (simp only: h_def)
qed




lemma js_exact:
  "\<bar>a + b\<bar> < 2 ^ 53 \<Longrightarrow> js_add a b = a + b"
  "\<bar>a - b\<bar> < 2 ^ 53 \<Longrightarrow> js_sub a b = a - b"
  "\<bar>a * b\<bar> < 2 ^ 53 \<Longrightarrow> js_mul a b = a * b"
  by (simp_all add: js_add_def js_sub_def js_mul_def round53_exact)

text \<open>Each loop appends one round for every remaining value of the counter.\<close>

lemma co2_loop_map:
  "co2_loop i sp ds h tbl =
     tbl @ map (\<lambda>k. \<lparr>round_no = k, prep = max 30 (js_sub sp (js_mul (k - 1) ds)), hold = h,
                     recovery = None\<rparr>) [i..NUM_ROUNDS]"
proof (induction i sp ds h tbl rule: co2_loop.induct)
  case (1 i sp ds h tbl)
  show ?case
  proof (cases "i \<le> NUM_ROUNDS")
    case True
    then have "[i..NUM_ROUNDS] = i # [i + 1..NUM_ROUNDS]"
      by (rule upto_rec1)
    with True "1.IH" show ?thesis
      by (subst co2_loop.simps) simp
  next
    case False
    then show ?thesis
      by (subst co2_loop.simps) simp
  qed
qed

lemma o2_loop_map:
  "o2_loop i sh rt hi tbl =
     tbl @ map (\<lambda>k. \<lparr>round_no = k, prep = rt, hold = js_add sh (js_mul (k - 1) hi),
                     recovery = None\<rparr>) [i..NUM_ROUNDS]"
proof (induction i sh rt hi tbl rule: o2_loop.induct)
  case (1 i sh rt hi tbl)
  show ?case
  proof (cases "i \<le> NUM_ROUNDS")
    case True
    then have "[i..NUM_ROUNDS] = i # [i + 1..NUM_ROUNDS]"
      by (rule upto_rec1)
    with True "1.IH" show ?thesis
      by (subst o2_loop.simps) simp
  next
    case False
    then show ?thesis
      by (subst o2_loop.simps) simp
  qed
qed

lemma upto_1_8: "[1..8::int] = [1, 2, 3, 4, 5, 6, 7, 8]"
  by (simp add: upto.simps)

lemma generateCo2Table_map:
  "generateCo2Table pb =
     map (\<lambda>k. \<lparr>round_no = k,
               prep = max 30 (js_sub (js_add (max 30 (Math_round (js_times_0_60 pb))) 75)
                                     (js_mul (k - 1) 15)),
               hold = max 30 (Math_round (js_times_0_60 pb)),
               recovery = None\<rparr>) [1..8]"
  by (simp only: generateCo2Table_def Let_def co2_loop_map NUM_ROUNDS_def append_Nil)

lemma generateO2Table_map:
  "generateO2Table pb =
     map (\<lambda>k. \<lparr>round_no = k,
               prep = 120,
               hold = js_add (max 45 (Math_round (js_times_0_5 pb))) (js_mul (k - 1) 10),
               recovery = None\<rparr>) [1..8]"
  by (simp only: generateO2Table_def Let_def o2_loop_map NUM_ROUNDS_def append_Nil)



text \<open>
  Up to \<open>2\<^sup>5\<^sup>0\<close> every operation of the generators is exact, but for the product with
  \<^verbatim>\<open>0.60\<close>, whose rounding \<^verbatim>\<open>Math.round\<close> absorbs.
\<close>

lemma generateCo2Table_exact:
  assumes "0 < pb" "pb \<le> 2 ^ 50"
  defines "h \<equiv> max 30 ((6 * pb + 5) div 10)"
  shows "generateCo2Table pb =
   [\<lparr>round_no = 1, prep = max 30 (h + 75), hold = h, recovery = None\<rparr>,
    \<lparr>round_no = 2, prep = max 30 (h + 60), hold = h, recovery = None\<rparr>,
    \<lparr>round_no = 3, prep = max 30 (h + 45), hold = h, recovery = None\<rparr>,
    \<lparr>round_no = 4, prep = max 30 (h + 30), hold = h, recovery = None\<rparr>,
    \<lparr>round_no = 5, prep = max 30 (h + 15), hold = h, recovery = None\<rparr>,
    \<lparr>round_no = 6, prep = max 30 h, hold = h, recovery = None\<rparr>,
    \<lparr>round_no = 7, prep = max 30 (h - 15), hold = h, recovery = None\<rparr>,
    \<lparr>round_no = 8, prep = max 30 (h - 30), hold = h, recovery = None\<rparr>]"
proof -
  from assms(1,2) have H: "max 30 (Math_round (js_times_0_60 pb)) = h"
    by (simp add: Math_round_times_0_60 h_def)
  have "(6 * pb + 5) div 10 \<le> pb"
    using assms(1) by presburger
  with assms(2) have b: "30 \<le> h" "h \<le> 2 ^ 50"
    by (simp_all add: h_def)
  then have a: "js_add h 75 = h + 75"
    by (intro js_exact) simp
  have m: "js_mul c 15 = c * 15" if "0 \<le> c" "c \<le> 7" for c
    using that by (intro js_exact) simp
  have s: "js_sub (h + 75) c = h + 75 - c" if "0 \<le> c" "c \<le> 105" for c
    using that b by (intro js_exact) simp
  show ?thesis
    unfolding generateCo2Table_map H a upto_1_8
    by (simp add: m s add.commute)
qed



text \<open>The tables for personal bests of 90 and of 10 seconds.\<close>

lemma generateCo2Table_90:
  "generateCo2Table 90 =
    [\<lparr>round_no = 1, prep = 129, hold = 54, recovery = None\<rparr>,
     \<lparr>round_no = 2, prep = 114, hold = 54, recovery = None\<rparr>,
     \<lparr>round_no = 3, prep = 99, hold = 54, recovery = None\<rparr>,
     \<lparr>round_no = 4, prep = 84, hold = 54, recovery = None\<rparr>,
     \<lparr>round_no = 5, prep = 69, hold = 54, recovery = None\<rparr>,
     \<lparr>round_no = 6, prep = 54, hold = 54, recovery = None\<rparr>,
     \<lparr>round_no = 7, prep = 39, hold = 54, recovery = None\<rparr>,
     \<lparr>round_no = 8, prep = 30, hold = 54, recovery = None\<rparr>]"
  by (subst generateCo2Table_exact) simp_all

lemma generateCo2Table_10:
  "generateCo2Table 10 =
    [\<lparr>round_no = 1, prep = 105, hold = 30, recovery = None\<rparr>,
     \<lparr>round_no = 2, prep = 90, hold = 30, recovery = None\<rparr>,
     \<lparr>round_no = 3, prep = 75, hold = 30, recovery = None\<rparr>,
     \<lparr>round_no = 4, prep = 60, hold = 30, recovery = None\<rparr>,
     \<lparr>round_no = 5, prep = 45, hold = 30, recovery = None\<rparr>,
     \<lparr>round_no = 6, prep = 30, hold = 30, recovery = None\<rparr>,
     \<lparr>round_no = 7, prep = 30, hold = 30, recovery = None\<rparr>,
     \<lparr>round_no = 8, prep = 30, hold = 30, recovery = None\<rparr>]"
  by (subst generateCo2Table_exact) simp_all












section \<open>Renders that change nothing\<close>

text \<open>
  When the effects of a render leave the dependencies as they are, the render loop ends
  after them; this is so whenever the session is inactive, no table is bound, or the
  phase is \<^verbatim>\<open>ready\<close> or \<^verbatim>\<open>finished\<close>.
\<close>

lemma settle2_one_commit:
  assumes "countdownDeps2 (commit2 p r) = countdownDeps2 r"
  shows "settle2 p r =
     (if phaseDeps2 p = phaseDeps2 r \<and> countdownDeps2 p = countdownDeps2 r then r
      else commit2 p r)"
proof -
  from assms have "phaseDeps2 (commit2 p r) = phaseDeps2 r"
    by (rule countdownDeps2_phaseDeps2)
  with assms have "settle2 r (commit2 p r) = commit2 p r"
    by (subst settle2.simps) simp
  then show ?thesis
    by (subst settle2.simps) simp
qed

lemma commit2_idle:
  assumes "\<not> isSessionActive r \<or> tableData r = None \<or> currentPhase r = Ready \<or> currentPhase r = Finished"
  shows "countdownDeps2 (commit2 p r) = countdownDeps2 r"
proof (cases "phaseDeps2 p = phaseDeps2 r \<and> countdownDeps2 p = countdownDeps2 r")
  case True
  then show ?thesis
    by (simp add: commit2_def)
next
  case False
  from commit2_cases [OF False] effects2_idle [OF assms] show ?thesis
    by auto
qed

lemma settle2_idle:
  assumes "\<not> isSessionActive r \<or> tableData r = None \<or> currentPhase r = Ready \<or> currentPhase r = Finished"
  shows "countdownDeps2 (settle2 p r) = countdownDeps2 r"
  using commit2_idle [OF assms, of p] settle2_one_commit [of p r] by simp

lemma settle3_one_commit:
  assumes "reactState3 (commit3 r) = reactState3 r"
  shows "settle3 p r = (if reactState3 p = reactState3 r then r else commit3 r)"
proof -
  from assms have "settle3 r (commit3 r) = commit3 r"
    by (subst settle3.simps) simp
  then show ?thesis
    by (subst settle3.simps) simp
qed

lemma settle3_rest:
  assumes "\<not> (isSessionActive r \<and> timeRemaining r = Num 0 \<and> tableData r \<noteq> None)"
  shows "reactState3 (settle3 p r) = reactState3 r"
  using commit3_rest [OF assms] settle3_one_commit [of r p] by simp

section \<open>Properties of the controllers\<close>

text \<open>
  Claim C9.  Calling stop at any point of a session deactivates it and resets
  \<^verbatim>\<open>currentRoundIndex\<close> to 0, \<^verbatim>\<open>currentPhase\<close> to the initial phase (\<^verbatim>\<open>ready\<close> in the
  two-phase controller, \<^verbatim>\<open>prep\<close> in the three-phase one) and \<^verbatim>\<open>timeRemaining\<close> to 0,
  whatever the round and phase were; this holds of the handler and of the state once
  the renders that follow have come to rest.  \<^verbatim>\<open>stopSession\<close> only sets state, clears the
  timeout and resets the form, so it has no error branch.
\<close>

theorem stopSession_resets:
  "isSessionActive (stopSession2 s) = False \<and>
   currentRoundIndex (stopSession2 s) = 0 \<and>
   currentPhase (stopSession2 s) = currentPhase initial2 \<and>
   timeRemaining (stopSession2 s) = Num 0 \<and>
   timerId (stopSession2 s) = None \<and>
   isSessionActive (stop2 s) = False \<and>
   currentRoundIndex (stop2 s) = 0 \<and>
   currentPhase (stop2 s) = currentPhase initial2 \<and>
   timeRemaining (stop2 s) = Num 0 \<and>
   isSessionActive (stopSession3 s) = False \<and>
   currentRoundIndex (stopSession3 s) = 0 \<and>
   currentPhase (stopSession3 s) = currentPhase initial3 \<and>
   timeRemaining (stopSession3 s) = Num 0 \<and>
   timerId (stopSession3 s) = None \<and>
   isSessionActive (stop3 s) = False \<and>
   currentRoundIndex (stop3 s) = 0 \<and>
   currentPhase (stop3 s) = currentPhase initial3 \<and>
   timeRemaining (stop3 s) = Num 0"
proof -
  have two: "countdownDeps2 (stop2 s) = countdownDeps2 (stopSession2 s)"
    unfolding stop2_def by (rule settle2_idle) (simp add: stopSession2_def resetSessionState2_def)
  have three: "reactState3 (stop3 s) = reactState3 (stopSession3 s)"
    unfolding stop3_def by (rule settle3_rest) (simp add: stopSession3_def)
  from two three show ?thesis
    by (simp add: countdownDeps2_def reactState3_def stopSession2_def resetSessionState2_def
        stopSession3_def initial2_def initial3_def)
qed


lemma settle2_same: "settle2 s s = s"
  by (subst settle2.simps) simp

lemma settle3_same: "settle3 s s = s"
  by (subst settle3.simps) simp

theorem stopSession_resets_witness:
  "isSessionActive (stop2 (startSession2 (onSubmit2 90 initial2))) = False \<and>
   currentRoundIndex (stop2 (startSession2 (onSubmit2 90 initial2))) = 0 \<and>
   currentPhase (stop2 (startSession2 (onSubmit2 90 initial2))) = Ready \<and>
   timeRemaining (stop2 (startSession2 (onSubmit2 90 initial2))) = Num 0 \<and>
   isSessionActive (stop3 (timeout3 initial3)) = False \<and>
   currentRoundIndex (stop3 (timeout3 initial3)) = 0 \<and>
   currentPhase (stop3 (timeout3 initial3)) = Prep \<and>
   timeRemaining (stop3 (timeout3 initial3)) = Num 0"
  using stopSession_resets [of "startSession2 (onSubmit2 90 initial2)"]
    stopSession_resets [of "timeout3 initial3"]
  by (simp add: initial2_def initial3_def)

text \<open>
  The start handlers.  With no table bound, \<^verbatim>\<open>startSession\<close> returns at once in both
  controllers.  With a table bound, the two-phase handler sets \<^verbatim>\<open>isSessionActive\<close>,
  \<^verbatim>\<open>currentRoundIndex\<close> and \<^verbatim>\<open>currentPhase\<close> and nothing else; the three-phase handler (the
  table being non-empty) also sets \<^verbatim>\<open>timeRemaining\<close> to the first round's prep duration and
  plays the start sound.
\<close>

lemma startSession_handlers:
  "(tableData s = None \<longrightarrow>
      startSession2 s = s \<and> start2 s = s \<and> startSession3 s = Inr s \<and> start3 s = Inr s) \<and>
   (tableData s \<noteq> None \<longrightarrow>
      startSession2 s =
        s\<lparr>isSessionActive := True, currentRoundIndex := 0, currentPhase := Prep\<rparr> \<and>
      timeRemaining (startSession2 s) = timeRemaining s \<and>
      cues (startSession2 s) = cues s) \<and>
   (\<forall>T. tableData s = Some T \<and> T \<noteq> [] \<longrightarrow>
      startSession3 s =
        Inr (s\<lparr>isSessionActive := True, currentRoundIndex := 0, currentPhase := Prep,
               timeRemaining := Num (prep (T ! 0)),
               cues := cues s @ [PlayStartSound]\<rparr>))"
  by (auto simp: startSession2_def startSession3_def start2_def start3_def settle2_same
      settle3_same array_get_def)


text \<open>
  Claim C7, amended.  In the two-phase controller a personal best below 30 seconds for
  the CO2 table, or below 60 seconds for the O2 table, is rejected: \<^verbatim>\<open>onSubmit\<close> sets the
  alert message and shows the alert, and changes nothing else (no table is generated, no
  value is clamped); at or above the threshold the table of the selected kind is
  generated.  The three-phase controller's \<^verbatim>\<open>onSubmit\<close> has no threshold: it generates
  the table for every value it is given.
\<close>

theorem onSubmit_validation:
  "((tableType s = Co2 \<and> pb < 30) \<or> (tableType s = O2 \<and> pb < 60) \<longrightarrow>
      onSubmit2 pb s = s\<lparr>alertMessage := alertMessage (onSubmit2 pb s), showAlert := True\<rparr> \<and>
      alertMessage (onSubmit2 pb s) \<noteq> [] \<and>
      submit2 pb s = onSubmit2 pb s) \<and>
   (tableType s = Co2 \<and> 30 \<le> pb \<longrightarrow> tableData (onSubmit2 pb s) = Some (generateCo2Table pb)) \<and>
   (tableType s = O2 \<and> 60 \<le> pb \<longrightarrow> tableData (onSubmit2 pb s) = Some (generateO2Table pb)) \<and>
   (tableType s = Co2 \<longrightarrow>
      tableData (onSubmit3 minutes seconds s) = Some (generateCo2Table (minutes * 60 + seconds))) \<and>
   (tableType s = O2 \<longrightarrow>
      tableData (onSubmit3 minutes seconds s) = Some (generateO2Table (minutes * 60 + seconds)))"
proof -
  have "submit2 pb s = onSubmit2 pb s"
    if "(tableType s = Co2 \<and> pb < 30) \<or> (tableType s = O2 \<and> pb < 60)"
  proof -
    from that have "phaseDeps2 s = phaseDeps2 (onSubmit2 pb s)"
      "countdownDeps2 s = countdownDeps2 (onSubmit2 pb s)"
      by (auto simp: onSubmit2_def phaseDeps2_def countdownDeps2_def)
    then show ?thesis
      unfolding submit2_def by (subst settle2.simps) simp
  qed
  then show ?thesis
    by (cases "tableType s") (auto simp: onSubmit2_def onSubmit3_def resetSessionState2_def Let_def)
qed

theorem onSubmit_validation_witness:
  "tableType initial2 = Co2 \<and> (29::int) < 30 \<and>
   tableData (onSubmit2 29 initial2) = None \<and>
   showAlert (onSubmit2 29 initial2) \<and>
   tableType (initial2\<lparr>tableType := O2\<rparr>) = O2 \<and> (59::int) < 60 \<and>
   tableData (onSubmit2 59 (initial2\<lparr>tableType := O2\<rparr>)) = None \<and>
   (30::int) \<le> 30 \<and>
   tableData (onSubmit2 30 initial2) = Some (generateCo2Table 30) \<and>
   (60::int) \<le> 60 \<and>
   tableData (onSubmit2 60 (initial2\<lparr>tableType := O2\<rparr>)) = Some (generateO2Table 60) \<and>
   tableData (onSubmit3 0 10 initial3) = Some (generateCo2Table 10) \<and>
   tableData (onSubmit3 0 10 (initial3\<lparr>tableType := O2\<rparr>)) = Some (generateO2Table 10)"
proof -
  have t: "tableType initial2 = Co2" "tableType (initial2\<lparr>tableType := O2\<rparr>) = O2"
    "tableType initial3 = Co2" "tableType (initial3\<lparr>tableType := O2\<rparr>) = O2"
    "tableData initial2 = None"
    by (simp_all add: initial2_def initial3_def)
  from onSubmit_validation [of initial2 29] t
  have a: "onSubmit2 29 initial2 =
      initial2\<lparr>alertMessage := alertMessage (onSubmit2 29 initial2), showAlert := True\<rparr>"
    by simp
  from onSubmit_validation [of "initial2\<lparr>tableType := O2\<rparr>" 59] t
  have b: "onSubmit2 59 (initial2\<lparr>tableType := O2\<rparr>) =
      initial2\<lparr>tableType := O2,
        alertMessage := alertMessage (onSubmit2 59 (initial2\<lparr>tableType := O2\<rparr>)), showAlert := True\<rparr>"
    by simp
  from onSubmit_validation [of initial2 30] t
  have c: "tableData (onSubmit2 30 initial2) = Some (generateCo2Table 30)"
    by simp
  from onSubmit_validation [of "initial2\<lparr>tableType := O2\<rparr>" 60] t
  have d: "tableData (onSubmit2 60 (initial2\<lparr>tableType := O2\<rparr>)) = Some (generateO2Table 60)"
    by simp
  from onSubmit_validation [of initial3 _ 0 10] t
  have e: "tableData (onSubmit3 0 10 initial3) = Some (generateCo2Table 10)"
    by simp
  from onSubmit_validation [of "initial3\<lparr>tableType := O2\<rparr>" _ 0 10] t
  have f: "tableData (onSubmit3 0 10 (initial3\<lparr>tableType := O2\<rparr>)) = Some (generateO2Table 10)"
    by simp
  have "tableData (onSubmit2 29 initial2) = None" "showAlert (onSubmit2 29 initial2)"
    by (subst a, simp add: t)+
  moreover have "tableData (onSubmit2 59 (initial2\<lparr>tableType := O2\<rparr>)) = None"
    by (subst b) (simp add: t)
  ultimately show ?thesis
    using t c d e f by simp
qed

text \<open>
  The claim as stated fails for the three-phase controller: a personal best of 10
  seconds for the CO2 table is accepted, a table is stored, and its hold time is the
  generator's floor of 30 seconds.
\<close>

theorem onSubmit3_counterexample:
  "tableType initial3 = Co2 \<and> (0 * 60 + 10 :: int) < 30 \<and>
   tableData initial3 = None \<and>
   tableData (onSubmit3 0 10 initial3) = Some (generateCo2Table 10) \<and>
   hold (generateCo2Table 10 ! 0) = 30 \<and>
   showAlert (onSubmit3 0 10 initial3) = False"
  by (simp add: onSubmit3_def initial3_def Let_def generateCo2Table_10)

text \<open>
  Claim C2, amended.  In the three-phase controller, when the countdown is at 0 while
  the session is active, the end sound is played and \<^verbatim>\<open>advancePhase\<close> runs: prep is
  followed by hold of the same round, hold by recovery of the same round, recovery by
  prep of the next round, each time with the new phase's duration loaded and the start
  sound played.  The session goes to finished, and is deactivated, when the round whose
  hold ends (the current round, not the one after it) has a recovery value of 0, and when
  the index of the round to enter is past the end of the table.
\<close>

theorem advancePhase3_transitions:
  "tableData r = Some T \<Longrightarrow>
   (isSessionActive r \<and> timeRemaining r = Num 0 \<longrightarrow>
      endEffect3 r u = advancePhase3 r (u\<lparr>cues := cues u @ [PlayEndSound]\<rparr>)) \<and>
   (currentPhase r = Prep \<and> currentRoundIndex r < length T \<longrightarrow>
      advancePhase3 r u =
        u\<lparr>currentPhase := Hold, currentRoundIndex := currentRoundIndex r,
          timeRemaining := Num (hold (T ! currentRoundIndex r)),
          cues := cues u @ [PlayStartSound]\<rparr>) \<and>
   (currentPhase r = Hold \<and> currentRoundIndex r < length T
      \<and> recovery (T ! currentRoundIndex r) \<noteq> Some 0 \<longrightarrow>
      advancePhase3 r u =
        u\<lparr>currentPhase := Recovery, currentRoundIndex := currentRoundIndex r,
          timeRemaining := round_field (T ! currentRoundIndex r) Recovery,
          cues := cues u @ [PlayStartSound]\<rparr>) \<and>
   (currentPhase r = Hold \<and> currentRoundIndex r < length T
      \<and> recovery (T ! currentRoundIndex r) = Some 0 \<longrightarrow>
      advancePhase3 r u = u\<lparr>isSessionActive := False, currentPhase := Finished\<rparr>) \<and>
   (currentPhase r = Recovery \<and> currentRoundIndex r + 1 < length T \<longrightarrow>
      advancePhase3 r u =
        u\<lparr>currentPhase := Prep, currentRoundIndex := currentRoundIndex r + 1,
          timeRemaining := Num (prep (T ! (currentRoundIndex r + 1))),
          cues := cues u @ [PlayStartSound]\<rparr>) \<and>
   (currentPhase r = Recovery \<and> length T \<le> currentRoundIndex r + 1 \<longrightarrow>
      advancePhase3 r u = u\<lparr>isSessionActive := False, currentPhase := Finished\<rparr>) \<and>
   (length T \<le> currentRoundIndex r \<longrightarrow>
      advancePhase3 r u = u\<lparr>isSessionActive := False, currentPhase := Finished\<rparr>)"
  by (simp add: endEffect3_def advancePhase3_def nextPhase3_def nextRoundIndex3_def Let_def
      js_is_zero_iff)


theorem advancePhase3_transitions_witness:
  "tableData example_hold3 = Some example_rounds3 \<and>
   isSessionActive example_hold3 \<and> timeRemaining example_hold3 = Num 0 \<and>
   endEffect3 example_hold3 example_hold3 =
     example_hold3\<lparr>currentPhase := Recovery, timeRemaining := Num 10,
                    cues := [PlayEndSound, PlayStartSound]\<rparr> \<and>
   advancePhase3 (example_hold3\<lparr>currentPhase := Prep\<rparr>) example_hold3 =
     example_hold3\<lparr>currentPhase := Hold, timeRemaining := Num 20, cues := [PlayStartSound]\<rparr> \<and>
   advancePhase3 (example_hold3\<lparr>currentRoundIndex := 1\<rparr>) example_hold3 =
     example_hold3\<lparr>isSessionActive := False, currentPhase := Finished\<rparr> \<and>
   advancePhase3 (example_hold3\<lparr>currentPhase := Recovery\<rparr>) example_hold3 =
     example_hold3\<lparr>currentPhase := Prep, currentRoundIndex := 1, timeRemaining := Num 10,
                    cues := [PlayStartSound]\<rparr> \<and>
   advancePhase3 (example_hold3\<lparr>currentPhase := Recovery, currentRoundIndex := 1\<rparr>) example_hold3 =
     example_hold3\<lparr>isSessionActive := False, currentPhase := Finished\<rparr> \<and>
   advancePhase3 (example_hold3\<lparr>currentPhase := Prep, currentRoundIndex := 2\<rparr>) example_hold3 =
     example_hold3\<lparr>isSessionActive := False, currentPhase := Finished\<rparr>"
proof -
  have t: "tableData example_hold3 = Some example_rounds3"
    "tableData (example_hold3\<lparr>currentPhase := Prep\<rparr>) = Some example_rounds3"
    "tableData (example_hold3\<lparr>currentRoundIndex := 1\<rparr>) = Some example_rounds3"
    "tableData (example_hold3\<lparr>currentPhase := Recovery\<rparr>) = Some example_rounds3"
    "tableData (example_hold3\<lparr>currentPhase := Recovery, currentRoundIndex := 1\<rparr>) = Some example_rounds3"
    "tableData (example_hold3\<lparr>currentPhase := Prep, currentRoundIndex := 2\<rparr>) = Some example_rounds3"
    by (simp_all add: example_hold3_def)
  have f: "isSessionActive example_hold3" "timeRemaining example_hold3 = Num 0"
    "currentPhase example_hold3 = Hold" "currentRoundIndex example_hold3 = 0"
    "cues example_hold3 = []"
    by (simp_all add: example_hold3_def initial3_def)
  have l: "length example_rounds3 = 2" "recovery (example_rounds3 ! 0) = Some 10"
    "recovery (example_rounds3 ! 1) = Some 0" "hold (example_rounds3 ! 0) = 20"
    "prep (example_rounds3 ! 1) = 10"
    by (simp_all add: example_rounds3_def)
  note spec = advancePhase3_transitions
  from spec [OF t(1), of example_hold3] f l
  have a: "endEffect3 example_hold3 example_hold3 =
      advancePhase3 example_hold3 (example_hold3\<lparr>cues := cues example_hold3 @ [PlayEndSound]\<rparr>)"
    by simp
  from spec [OF t(1), of "example_hold3\<lparr>cues := cues example_hold3 @ [PlayEndSound]\<rparr>"] f l
  have b: "advancePhase3 example_hold3 (example_hold3\<lparr>cues := cues example_hold3 @ [PlayEndSound]\<rparr>) =
      example_hold3\<lparr>currentPhase := Recovery, timeRemaining := Num 10,
                    cues := [PlayEndSound, PlayStartSound]\<rparr>"
    by simp
  from spec [OF t(2), of example_hold3] f l
  have c: "advancePhase3 (example_hold3\<lparr>currentPhase := Prep\<rparr>) example_hold3 =
     example_hold3\<lparr>currentPhase := Hold, timeRemaining := Num 20, cues := [PlayStartSound]\<rparr>"
    by simp
  from spec [OF t(3), of example_hold3] f l
  have d: "advancePhase3 (example_hold3\<lparr>currentRoundIndex := 1\<rparr>) example_hold3 =
     example_hold3\<lparr>isSessionActive := False, currentPhase := Finished\<rparr>"
    by simp
  from spec [OF t(4), of example_hold3] f l
  have e: "advancePhase3 (example_hold3\<lparr>currentPhase := Recovery\<rparr>) example_hold3 =
     example_hold3\<lparr>currentPhase := Prep, currentRoundIndex := 1, timeRemaining := Num 10,
                    cues := [PlayStartSound]\<rparr>"
    by simp
  from spec [OF t(5), of example_hold3] f l
  have g: "advancePhase3 (example_hold3\<lparr>currentPhase := Recovery, currentRoundIndex := 1\<rparr>) example_hold3 =
     example_hold3\<lparr>isSessionActive := False, currentPhase := Finished\<rparr>"
    by simp
  from spec [OF t(6), of example_hold3] f l
  have h: "advancePhase3 (example_hold3\<lparr>currentPhase := Prep, currentRoundIndex := 2\<rparr>) example_hold3 =
     example_hold3\<lparr>isSessionActive := False, currentPhase := Finished\<rparr>"
    by simp
  from t(1) f(1,2) a b c d e g h show ?thesis
    by simp
qed

text \<open>
  The claim as stated fails: in this two-round table the next round's recovery value is
  0 and the phase that ends is hold of the first round, yet the session enters recovery
  of the first round and stays active.
\<close>

theorem advancePhase3_counterexample:
  "tableData example_hold3 = Some example_rounds3 \<and>
   isSessionActive example_hold3 \<and> timeRemaining example_hold3 = Num 0 \<and>
   currentPhase example_hold3 = Hold \<and>
   recovery (example_rounds3 ! (currentRoundIndex example_hold3 + 1)) = Some 0 \<and>
   currentPhase (endEffect3 example_hold3 example_hold3) = Recovery \<and>
   currentRoundIndex (endEffect3 example_hold3 example_hold3) = currentRoundIndex example_hold3 \<and>
   isSessionActive (endEffect3 example_hold3 example_hold3)"
  by (simp add: example_hold3_def example_rounds3_def initial3_def endEffect3_def
      advancePhase3_def nextPhase3_def nextRoundIndex3_def Let_def)

text \<open>
  Claim C10.  For every input the rounds returned by \<^verbatim>\<open>generateCo2Table\<close> and
  \<^verbatim>\<open>generateO2Table\<close> have no \<^verbatim>\<open>recovery\<close> value.  So when the three-phase controller runs
  on a generated table, the test at the end of hold that the round's recovery equals 0 is
  never satisfied, and entering the recovery phase loads \<^verbatim>\<open>undefined\<close> as the duration.
\<close>

theorem generated_tables_have_no_recovery:
  "(\<forall>rnd \<in> set (generateCo2Table pb) \<union> set (generateO2Table pb). recovery rnd = None) \<and>
   (\<forall>T \<in> {generateCo2Table pb, generateO2Table pb}.
      tableData r = Some T \<and> currentPhase r = Hold \<and> currentRoundIndex r < length T \<longrightarrow>
        recovery (T ! currentRoundIndex r) \<noteq> Some 0 \<and>
        advancePhase3 r u =
          u\<lparr>currentPhase := Recovery, currentRoundIndex := currentRoundIndex r,
            timeRemaining := Undefined, cues := cues u @ [PlayStartSound]\<rparr>)"
proof -
  have none: "\<forall>rnd \<in> set (generateCo2Table pb) \<union> set (generateO2Table pb). recovery rnd = None"
    by (auto simp: generateCo2Table_map generateO2Table_map)
  have step: "recovery (T ! currentRoundIndex r) \<noteq> Some 0 \<and>
        advancePhase3 r u =
          u\<lparr>currentPhase := Recovery, currentRoundIndex := currentRoundIndex r,
            timeRemaining := Undefined, cues := cues u @ [PlayStartSound]\<rparr>"
    if "\<forall>rnd \<in> set T. recovery rnd = None" "tableData r = Some T" "currentPhase r = Hold"
      "currentRoundIndex r < length T" for T
  proof -
    from that(1,4) have "recovery (T ! currentRoundIndex r) = None"
      by simp
    with that show ?thesis
      by (simp add: advancePhase3_def nextPhase3_def nextRoundIndex3_def Let_def)
  qed
  from none step show ?thesis
    by blast
qed

theorem generated_tables_have_no_recovery_witness:
  "recovery (generateCo2Table 90 ! 0) = None \<and>
   tableData (onSubmit3 1 30 initial3) = Some (generateCo2Table 90) \<and>
   (0::nat) < length (generateCo2Table 90) \<and>
   advancePhase3 ((onSubmit3 1 30 initial3)\<lparr>currentPhase := Hold\<rparr>) initial3 =
     initial3\<lparr>currentPhase := Recovery, timeRemaining := Undefined, cues := [PlayStartSound]\<rparr>"
proof -
  define r where "r = (onSubmit3 1 30 initial3)\<lparr>currentPhase := Hold\<rparr>"
  have t: "tableData (onSubmit3 1 30 initial3) = Some (generateCo2Table 90)"
    "tableData r = Some (generateCo2Table 90)" "currentPhase r = Hold" "currentRoundIndex r = 0"
    by (simp_all add: r_def onSubmit3_def initial3_def Let_def)
  have len: "(0::nat) < length (generateCo2Table 90)"
    by (simp add: generateCo2Table_90)
  then have mem: "generateCo2Table 90 ! 0 \<in> set (generateCo2Table 90) \<union> set (generateO2Table 90)"
    by simp
  have T: "generateCo2Table 90 \<in> {generateCo2Table 90, generateO2Table 90}"
    by simp
  note spec = generated_tables_have_no_recovery [of 90 r initial3]
  from spec mem have a: "recovery (generateCo2Table 90 ! 0) = None"
    by blast
  from spec T t len have "advancePhase3 r initial3 =
      initial3\<lparr>currentPhase := Recovery, currentRoundIndex := currentRoundIndex r,
        timeRemaining := Undefined, cues := cues initial3 @ [PlayStartSound]\<rparr>"
    by simp
  then have b: "advancePhase3 r initial3 =
      initial3\<lparr>currentPhase := Recovery, timeRemaining := Undefined, cues := [PlayStartSound]\<rparr>"
    by (simp add: t initial3_def)
  from a t(1) len b show ?thesis
    by (simp add: r_def)
qed


section \<open>Runs of the two-phase controller\<close>

text \<open>
  What the two effects do to an active session inside its table, in terms of
  \<open>session_view\<close>: at 0 the countdown effect advances the phase while the phase effect,
  when it runs, loads the duration of the phase that was rendered.
\<close>

lemma session_view_both_effects:
  assumes "session_view r = (Some T, True, ph, i, Num k, tm)" "ph = Prep \<or> ph = Hold" "i < length T"
  shows "session_view (countdownEffect2 r (phaseEffect2 r (r\<lparr>timerId := None\<rparr>))) =
     (if k = 0
      then (if ph = Prep then (Some T, True, Hold, i, Num (prep (T ! i)), None)
            else if Suc i = length T then (Some T, False, Finished, i, Num (hold (T ! i)), None)
            else (Some T, True, Prep, Suc i, Num (hold (T ! i)), None))
      else (Some T, True, ph, i, Num (duration2 T ph i), if k < 0 then None else Some (Num k)))"
  using assms
  by (auto simp: session_view_def duration2_def effect2_simps)

lemma session_view_countdown_effect:
  assumes "session_view r = (Some T, True, ph, i, Num k, tm)" "ph = Prep \<or> ph = Hold" "i < length T"
  shows "session_view (countdownEffect2 r (r\<lparr>timerId := None\<rparr>)) =
     (if k = 0
      then (if ph = Prep then (Some T, True, Hold, i, Num 0, None)
            else if Suc i = length T then (Some T, False, Finished, i, Num 0, None)
            else (Some T, True, Prep, Suc i, Num 0, None))
      else (Some T, True, ph, i, Num k, if k < 0 then None else Some (Num k)))"
  using assms
  by (auto simp: session_view_def effect2_simps)

lemma cues_both_effects:
  assumes "session_view r = (Some T, True, ph, i, Num k, tm)" "ph = Prep \<or> ph = Hold" "i < length T"
  shows "cues (countdownEffect2 r (phaseEffect2 r (r\<lparr>timerId := None\<rparr>))) =
     cues r @ [PlayStartSound] @ (if k = 0 then [PlayEndSound] else [])"
  using assms
  by (auto simp: session_view_def effect2_simps)

lemma cues_countdown_effect:
  assumes "session_view r = (Some T, True, ph, i, Num k, tm)" "ph = Prep \<or> ph = Hold" "i < length T"
  shows "cues (countdownEffect2 r (r\<lparr>timerId := None\<rparr>)) =
     cues r @ (if k = 0 then [PlayEndSound] else [])"
  using assms
  by (auto simp: session_view_def effect2_simps)

lemma phaseDeps2_session_view:
  "phaseDeps2 p = phaseDeps2 r \<longleftrightarrow>
     fst (session_view p) = fst (session_view r) \<and> fst (snd (session_view p)) = fst (snd (session_view r)) \<and>
     fst (snd (snd (session_view p))) = fst (snd (snd (session_view r))) \<and>
     fst (snd (snd (snd (session_view p)))) = fst (snd (snd (snd (session_view r))))"
  by (auto simp: phaseDeps2_def session_view_def)

lemma countdownDeps2_session_view:
  "countdownDeps2 p = countdownDeps2 r \<longleftrightarrow>
     phaseDeps2 p = phaseDeps2 r \<and>
     fst (snd (snd (snd (snd (session_view p))))) = fst (snd (snd (snd (snd (session_view r)))))"
  by (auto simp: phaseDeps2_def countdownDeps2_def session_view_def)

lemma nonneg_table_nth:
  "nonneg_table T \<Longrightarrow> i < length T \<Longrightarrow> 0 \<le> prep (T ! i) \<and> 0 \<le> hold (T ! i)"
  by (simp add: nonneg_table_def)

lemma later2_nonneg: "nonneg_table T \<Longrightarrow> i < length T \<Longrightarrow> 0 \<le> later2 T ph i"
  unfolding later2_def
  by (intro add_nonneg_nonneg sum_nonneg) (auto dest: nonneg_table_nth)

lemma later2_Prep: "later2 T Prep i = duration2 T Hold i + later2 T Hold i"
  by (simp add: later2_def duration2_def)

lemma later2_Hold:
  "Suc i < length T \<Longrightarrow> later2 T Hold i = duration2 T Prep (Suc i) + later2 T Prep (Suc i)"
  by (simp add: later2_def duration2_def sum.atLeast_Suc_lessThan)

lemma total2_first: "T \<noteq> [] \<Longrightarrow> total2 T = duration2 T Prep 0 + later2 T Prep 0"
  by (simp add: total2_def later2_def duration2_def sum.atLeast_Suc_lessThan)

lemma settle2_step:
  "\<not> (phaseDeps2 p = phaseDeps2 r \<and> countdownDeps2 p = countdownDeps2 r) \<Longrightarrow>
   settle2 p r = settle2 r (commit2 p r)"
  by (subst settle2.simps) auto

lemma settle2_stop:
  "phaseDeps2 p = phaseDeps2 r \<Longrightarrow> countdownDeps2 p = countdownDeps2 r \<Longrightarrow> settle2 p r = r"
  by (subst settle2.simps) simp

lemma commit2_both:
  "phaseDeps2 p \<noteq> phaseDeps2 r \<Longrightarrow>
   commit2 p r = countdownEffect2 r (phaseEffect2 r (r\<lparr>timerId := None\<rparr>))"
  using commit2_cases [of p r] by blast

lemma commit2_countdown:
  "phaseDeps2 p = phaseDeps2 r \<Longrightarrow> countdownDeps2 p \<noteq> countdownDeps2 r \<Longrightarrow>
   commit2 p r = countdownEffect2 r (r\<lparr>timerId := None\<rparr>)"
  using commit2_cases [of p r] by blast

lemma settle2_finished:
  assumes "session_view r = (Some T, False, Finished, i, tr, None)"
  shows "outcome2 T (settle2 p r) B"
proof -
  have idle: "\<not> isSessionActive r \<or> tableData r = None \<or> currentPhase r = Ready \<or> currentPhase r = Finished"
    using assms by (simp add: session_view_def)
  have deps: "countdownDeps2 (settle2 p r) = countdownDeps2 r"
    by (rule settle2_idle [OF idle])
  have "timerId (commit2 p r) = None"
    using assms
    by (auto simp: commit2_def Let_def session_view_def effect2_simps)
  with settle2_one_commit [OF commit2_idle [OF idle], of p] assms
  have "timerId (settle2 p r) = None"
    by (simp add: session_view_def)
  with deps assms show ?thesis
    by (simp add: outcome2_def done2_def countdownDeps2_def session_view_def)
qed

text \<open>
  The render loop, started in any state met on the way, comes to rest in an ended session
  or in a session counting down inside the table, and its bound on the seconds left is
  kept.  The proof follows the recursion of \<open>settle2\<close>.
\<close>

lemma config2_I:
  assumes "session_view r' = (Some T, True, ph, i, Num k, tm)" "ph = Prep \<or> ph = Hold" "i < length T"
    "0 \<le> k"
    "phaseDeps2 r \<noteq> phaseDeps2 r' \<Longrightarrow> duration2 T ph i + later2 T ph i \<le> B"
    "phaseDeps2 r = phaseDeps2 r' \<Longrightarrow> k \<le> duration2 T ph i \<and> k + later2 T ph i \<le> B"
    "phaseDeps2 r = phaseDeps2 r' \<Longrightarrow> countdownDeps2 r = countdownDeps2 r' \<Longrightarrow>
       0 < k \<and> tm = Some (Num k)"
  shows "config2 T r r' B"
  unfolding config2_def using assms by (intro exI [of _ ph] exI [of _ i] exI [of _ k] exI [of _ tm]) simp

lemma settle2_outcome:
  assumes nn: "nonneg_table T"
  shows "config2 T p r B \<Longrightarrow> outcome2 T (settle2 p r) B"
proof (induction p r arbitrary: B rule: settle2.induct)
  case (1 p r)
  from "1.prems" obtain ph i k tm where
    v: "session_view r = (Some T, True, ph, i, Num k, tm)" and ph: "ph = Prep \<or> ph = Hold"
    and i: "i < length T" and k: "0 \<le> k"
    and c: "if phaseDeps2 p \<noteq> phaseDeps2 r then duration2 T ph i + later2 T ph i \<le> B
         else k \<le> duration2 T ph i \<and> k + later2 T ph i \<le> B \<and>
              (countdownDeps2 p = countdownDeps2 r \<longrightarrow> 0 < k \<and> tm = Some (Num k))"
    unfolding config2_def by blast
  from nn i have dn: "0 \<le> duration2 T q i" for q
    by (auto simp: duration2_def dest: nonneg_table_nth)
  show ?case
  proof (cases "phaseDeps2 p = phaseDeps2 r \<and> countdownDeps2 p = countdownDeps2 r")
    case True
    then have "settle2 p r = r"
      by (simp add: settle2_stop)
    moreover from True c have "0 < k" "tm = Some (Num k)" "k \<le> duration2 T ph i"
      "k + later2 T ph i \<le> B"
      by simp_all
    ultimately show ?thesis
      using v ph i by (auto simp: outcome2_def session_view_def)
  next
    case False
    define r' where "r' = commit2 p r"
    from settle2_step [OF False] have st: "settle2 p r = settle2 r r'"
      by (simp add: r'_def)
    have IH: "outcome2 T (settle2 r r') B'" if "config2 T r r' B'" for B'
      using "1.IH" [OF False] that by (simp add: r'_def)
    have fin: "outcome2 T (settle2 r r') B" if "session_view r' = (Some T, False, Finished, j, t, None)" for j t
      using that by (rule settle2_finished)
    show ?thesis
    proof (cases "phaseDeps2 p = phaseDeps2 r")
      case c1: False
      with c have bnd: "duration2 T ph i + later2 T ph i \<le> B"
        by simp
      from c1 have "r' = countdownEffect2 r (phaseEffect2 r (r\<lparr>timerId := None\<rparr>))"
        unfolding r'_def by (rule commit2_both)
      with session_view_both_effects [OF v ph i]
      have r'v: "session_view r' =
         (if k = 0
          then (if ph = Prep then (Some T, True, Hold, i, Num (prep (T ! i)), None)
                else if Suc i = length T then (Some T, False, Finished, i, Num (hold (T ! i)), None)
                else (Some T, True, Prep, Suc i, Num (hold (T ! i)), None))
          else (Some T, True, ph, i, Num (duration2 T ph i), if k < 0 then None else Some (Num k)))"
        by simp
      consider (zp) "k = 0" "ph = Prep" | (zl) "k = 0" "ph = Hold" "Suc i = length T"
        | (zn) "k = 0" "ph = Hold" "Suc i < length T" | (pos) "0 < k"
        using k ph i by (cases "k = 0"; cases "Suc i = length T") auto
      then show ?thesis
      proof cases
        case zp
        with r'v have w: "session_view r' = (Some T, True, Hold, i, Num (prep (T ! i)), None)"
          by simp
        have "config2 T r r' B"
        proof (rule config2_I [OF w _ i])
          show "Hold = Prep \<or> Hold = Hold" by simp
          show "0 \<le> prep (T ! i)" using dn [of Prep] by (simp add: duration2_def)
          show "duration2 T Hold i + later2 T Hold i \<le> B"
            using bnd zp dn [of Prep] by (simp add: later2_Prep)
          show "prep (T ! i) \<le> duration2 T Hold i \<and> prep (T ! i) + later2 T Hold i \<le> B"
            if "phaseDeps2 r = phaseDeps2 r'"
            using that v w zp by (simp add: phaseDeps2_def session_view_def)
          show "0 < prep (T ! i) \<and> None = Some (Num (prep (T ! i)))"
            if "phaseDeps2 r = phaseDeps2 r'"
            using that v w zp by (simp add: phaseDeps2_def session_view_def)
        qed
        with IH st show ?thesis by simp
      next
        case zl
        with r'v have "session_view r' = (Some T, False, Finished, i, Num (hold (T ! i)), None)"
          by simp
        with fin st show ?thesis by simp
      next
        case zn
        with r'v have w: "session_view r' = (Some T, True, Prep, Suc i, Num (hold (T ! i)), None)"
          by simp
        have "config2 T r r' B"
        proof (rule config2_I [OF w _ zn(3)])
          show "Prep = Prep \<or> Prep = Hold" by simp
          show "0 \<le> hold (T ! i)" using dn [of Hold] by (simp add: duration2_def)
          show "duration2 T Prep (Suc i) + later2 T Prep (Suc i) \<le> B"
            using bnd zn dn [of Hold] by (simp add: later2_Hold)
          show "hold (T ! i) \<le> duration2 T Prep (Suc i) \<and> hold (T ! i) + later2 T Prep (Suc i) \<le> B"
            if "phaseDeps2 r = phaseDeps2 r'"
            using that v w zn by (simp add: phaseDeps2_def session_view_def)
          show "0 < hold (T ! i) \<and> None = Some (Num (hold (T ! i)))"
            if "phaseDeps2 r = phaseDeps2 r'"
            using that v w zn by (simp add: phaseDeps2_def session_view_def)
        qed
        with IH st show ?thesis by simp
      next
        case pos
        with r'v have w: "session_view r' = (Some T, True, ph, i, Num (duration2 T ph i), Some (Num k))"
          by simp
        have same: "phaseDeps2 r = phaseDeps2 r'"
          using v w by (simp add: phaseDeps2_def session_view_def)
        have "config2 T r r' B"
        proof (rule config2_I [OF w ph i])
          show "0 \<le> duration2 T ph i" by (rule dn)
          show "duration2 T ph i + later2 T ph i \<le> B" by (rule bnd)
          show "duration2 T ph i \<le> duration2 T ph i \<and> duration2 T ph i + later2 T ph i \<le> B"
            using bnd by simp
          show "0 < duration2 T ph i \<and> Some (Num k) = Some (Num (duration2 T ph i))"
            if "countdownDeps2 r = countdownDeps2 r'"
            using that v w pos by (simp add: countdownDeps2_def session_view_def)
        qed
        with IH st show ?thesis by simp
      qed
    next
      case c1: True
      with False have c2: "countdownDeps2 p \<noteq> countdownDeps2 r"
        by simp
      from c c1 have bnd: "k \<le> duration2 T ph i" "k + later2 T ph i \<le> B"
        by simp_all
      from c1 c2 have "r' = countdownEffect2 r (r\<lparr>timerId := None\<rparr>)"
        unfolding r'_def by (rule commit2_countdown)
      with session_view_countdown_effect [OF v ph i]
      have r'v: "session_view r' =
         (if k = 0
          then (if ph = Prep then (Some T, True, Hold, i, Num 0, None)
                else if Suc i = length T then (Some T, False, Finished, i, Num 0, None)
                else (Some T, True, Prep, Suc i, Num 0, None))
          else (Some T, True, ph, i, Num k, if k < 0 then None else Some (Num k)))"
        by simp
      consider (zp) "k = 0" "ph = Prep" | (zl) "k = 0" "ph = Hold" "Suc i = length T"
        | (zn) "k = 0" "ph = Hold" "Suc i < length T" | (pos) "0 < k"
        using k ph i by (cases "k = 0"; cases "Suc i = length T") auto
      then show ?thesis
      proof cases
        case zp
        with r'v have w: "session_view r' = (Some T, True, Hold, i, Num 0, None)"
          by simp
        have "config2 T r r' B"
        proof (rule config2_I [OF w _ i])
          show "Hold = Prep \<or> Hold = Hold" by simp
          show "(0::int) \<le> 0" by simp
          show "duration2 T Hold i + later2 T Hold i \<le> B"
            using bnd zp by (simp add: later2_Prep)
          show "0 \<le> duration2 T Hold i \<and> 0 + later2 T Hold i \<le> B"
            if "phaseDeps2 r = phaseDeps2 r'"
            using that v w zp by (simp add: phaseDeps2_def session_view_def)
          show "(0::int) < 0 \<and> None = Some (Num 0)"
            if "phaseDeps2 r = phaseDeps2 r'"
            using that v w zp by (simp add: phaseDeps2_def session_view_def)
        qed
        with IH st show ?thesis by simp
      next
        case zl
        with r'v have "session_view r' = (Some T, False, Finished, i, Num 0, None)"
          by simp
        with fin st show ?thesis by simp
      next
        case zn
        with r'v have w: "session_view r' = (Some T, True, Prep, Suc i, Num 0, None)"
          by simp
        have "config2 T r r' B"
        proof (rule config2_I [OF w _ zn(3)])
          show "Prep = Prep \<or> Prep = Hold" by simp
          show "(0::int) \<le> 0" by simp
          show "duration2 T Prep (Suc i) + later2 T Prep (Suc i) \<le> B"
            using bnd zn by (simp add: later2_Hold)
          show "0 \<le> duration2 T Prep (Suc i) \<and> 0 + later2 T Prep (Suc i) \<le> B"
            if "phaseDeps2 r = phaseDeps2 r'"
            using that v w zn by (simp add: phaseDeps2_def session_view_def)
          show "(0::int) < 0 \<and> None = Some (Num 0)"
            if "phaseDeps2 r = phaseDeps2 r'"
            using that v w zn by (simp add: phaseDeps2_def session_view_def)
        qed
        with IH st show ?thesis by simp
      next
        case pos
        with r'v have w: "session_view r' = (Some T, True, ph, i, Num k, Some (Num k))"
          by simp
        have "config2 T r r' B"
        proof (rule config2_I [OF w ph i k])
          show "duration2 T ph i + later2 T ph i \<le> B"
            if "phaseDeps2 r \<noteq> phaseDeps2 r'"
            using that v w by (simp add: phaseDeps2_def session_view_def)
          show "k \<le> duration2 T ph i \<and> k + later2 T ph i \<le> B"
            using bnd by simp
          show "0 < k \<and> Some (Num k) = Some (Num k)"
            using pos by simp
        qed
        with IH st show ?thesis by simp
      qed
    qed
  qed
qed

text \<open>A start puts the whole table ahead; every tick takes one second off the bound.\<close>

lemma start2_outcome:
  assumes nn: "nonneg_table T" and ne: "T \<noteq> []" and t: "tableData s = Some T"
    and a: "\<not> isSessionActive s" and z: "timeRemaining s = Num 0"
  shows "outcome2 T (start2 s) (total2 T)"
proof -
  have v: "session_view (startSession2 s) = (Some T, True, Prep, 0, Num 0, timerId s)"
    using t z by (simp add: startSession2_def session_view_def)
  have d: "phaseDeps2 s \<noteq> phaseDeps2 (startSession2 s)"
    using t a by (simp add: startSession2_def phaseDeps2_def)
  have "config2 T s (startSession2 s) (total2 T)"
  proof (rule config2_I [OF v])
    show "Prep = Prep \<or> Prep = Hold" by simp
    show "0 < length T" using ne by simp
    show "(0::int) \<le> 0" by simp
    show "duration2 T Prep 0 + later2 T Prep 0 \<le> total2 T"
      using ne by (simp add: total2_first)
    show "0 \<le> duration2 T Prep 0 \<and> 0 + later2 T Prep 0 \<le> total2 T"
      if "phaseDeps2 s = phaseDeps2 (startSession2 s)"
      using that d by simp
    show "(0::int) < 0 \<and> timerId s = Some (Num 0)"
      if "phaseDeps2 s = phaseDeps2 (startSession2 s)"
      using that d by simp
  qed
  then show ?thesis
    unfolding start2_def by (rule settle2_outcome [OF nn])
qed

lemma tick2_done: "done2 s \<Longrightarrow> tick2 s = s"
  by (simp add: done2_def tick2_def timeout2_def settle2_same)

lemma tick2_outcome:
  assumes nn: "nonneg_table T" and o: "outcome2 T s B"
  shows "outcome2 T (tick2 s) (B - 1)"
proof (cases "done2 s")
  case True
  with o show ?thesis
    by (simp add: tick2_done outcome2_def)
next
  case False
  with o obtain ph i k where
    v: "session_view s = (Some T, True, ph, i, Num k, Some (Num k))" and ph: "ph = Prep \<or> ph = Hold"
    and i: "i < length T" and k: "0 < k" "k \<le> duration2 T ph i" "k + later2 T ph i \<le> B"
    unfolding outcome2_def by blast
  have w: "session_view (timeout2 s) = (Some T, True, ph, i, Num (k - 1), None)"
    using v by (simp add: timeout2_def session_view_def)
  have same: "phaseDeps2 s = phaseDeps2 (timeout2 s)"
    using v w by (simp add: phaseDeps2_def session_view_def)
  have diff: "countdownDeps2 s \<noteq> countdownDeps2 (timeout2 s)"
    using v w by (simp add: countdownDeps2_def session_view_def)
  have "config2 T s (timeout2 s) (B - 1)"
  proof (rule config2_I [OF w ph i])
    show "0 \<le> k - 1" using k by simp
    show "duration2 T ph i + later2 T ph i \<le> B - 1"
      if "phaseDeps2 s \<noteq> phaseDeps2 (timeout2 s)"
      using that same by simp
    show "k - 1 \<le> duration2 T ph i \<and> k - 1 + later2 T ph i \<le> B - 1"
      using k by simp
    show "0 < k - 1 \<and> None = Some (Num (k - 1))"
      if "countdownDeps2 s = countdownDeps2 (timeout2 s)"
      using that diff by simp
  qed
  then show ?thesis
    unfolding tick2_def by (rule settle2_outcome [OF nn])
qed

lemma ticks2_outcome:
  assumes nn: "nonneg_table T" and o: "outcome2 T s B"
  shows "outcome2 T ((tick2 ^^ n) s) (B - int n)"
proof (induction n)
  case 0
  from o show ?case by simp
next
  case (Suc n)
  from tick2_outcome [OF nn Suc] show ?case
    by (simp add: algebra_simps)
qed

lemma outcome2_done:
  assumes nn: "nonneg_table T" and o: "outcome2 T s B" and B: "B \<le> 0"
  shows "done2 s"
proof (rule ccontr)
  assume "\<not> done2 s"
  with o obtain ph i k where "i < length T" "0 < k" "k + later2 T ph i \<le> B"
    unfolding outcome2_def by blast
  with later2_nonneg [OF nn, of i ph] B show False
    by simp
qed

lemma total2_sum_list: "total2 T = (\<Sum>rnd\<leftarrow>T. prep rnd + hold rnd)"
proof -
  have "(\<Sum>rnd\<leftarrow>T. prep rnd + hold rnd) =
      (\<Sum>j = 0..<length (map (\<lambda>rnd. prep rnd + hold rnd) T). map (\<lambda>rnd. prep rnd + hold rnd) T ! j)"
    by (rule sum_list_sum_nth)
  also have "\<dots> = total2 T"
    by (simp add: total2_def)
  finally show ?thesis
    by simp
qed

text \<open>
  An upper bound on the length of a session.  For every 8-round two-phase table (no
  duration negative) bound to a session at rest, once the session has been started and
  ticked as many times as the phases of the table have seconds, or more, the controller
  is in phase \<^verbatim>\<open>finished\<close> with \<^verbatim>\<open>isSessionActive\<close> false and no timeout pending, and a
  further tick changes nothing.  This bounds the run from above only; where the run
  really ends is computed below.
\<close>

lemma two_phase_session_ends:
  assumes "length T = 8"
    and "\<forall>rnd \<in> set T. 0 \<le> prep rnd \<and> 0 \<le> hold rnd"
    and "tableData s = Some T" and "\<not> isSessionActive s" and "timeRemaining s = Num 0"
    and "(\<Sum>rnd\<leftarrow>T. prep rnd + hold rnd) \<le> int n"
  shows "currentPhase ((tick2 ^^ n) (start2 s)) = Finished \<and>
         \<not> isSessionActive ((tick2 ^^ n) (start2 s)) \<and>
         timerId ((tick2 ^^ n) (start2 s)) = None \<and>
         tick2 ((tick2 ^^ n) (start2 s)) = (tick2 ^^ n) (start2 s)"
proof -
  from assms(2) have nn: "nonneg_table T"
    by (simp add: nonneg_table_def)
  from assms(1) have ne: "T \<noteq> []"
    by auto
  from start2_outcome [OF nn ne assms(3-5)]
  have "outcome2 T ((tick2 ^^ n) (start2 s)) (total2 T - int n)"
    by (rule ticks2_outcome [OF nn])
  moreover from assms(6) have "total2 T - int n \<le> 0"
    by (simp add: total2_sum_list)
  ultimately have d: "done2 ((tick2 ^^ n) (start2 s))"
    by (rule outcome2_done [OF nn])
  with tick2_done [OF d] show ?thesis
    by (simp add: done2_def)
qed


section \<open>Exact runs of the two-phase controller\<close>

text \<open>
  For rounds with positive durations the state in which the renders come to rest is
  computed exactly: a phase change that is rendered with the countdown at 0 goes on to the
  next phase in the following render, so a prep entered at 0 is left at once for its hold.
\<close>

lemma settle2_inactive:
  assumes "\<not> isSessionActive r"
  shows "settle2 p r = r \<or> settle2 p r = r\<lparr>timerId := None\<rparr>"
proof (cases "phaseDeps2 p = phaseDeps2 r \<and> countdownDeps2 p = countdownDeps2 r")
  case True
  then show ?thesis
    by (simp add: settle2_stop)
next
  case False
  from assms have idle: "\<not> isSessionActive r \<or> tableData r = None \<or> currentPhase r = Ready
      \<or> currentPhase r = Finished"
    by simp
  from assms have "countdownEffect2 r (phaseEffect2 r (r\<lparr>timerId := None\<rparr>)) = r\<lparr>timerId := None\<rparr>"
    "countdownEffect2 r (r\<lparr>timerId := None\<rparr>) = r\<lparr>timerId := None\<rparr>"
    by (simp_all add: effect2_simps split: option.split)
  with commit2_cases [OF False] have "commit2 p r = r\<lparr>timerId := None\<rparr>"
    by auto
  with settle2_one_commit [OF commit2_idle [OF idle], of p] False show ?thesis
    by simp
qed

lemma settle2_arm:
  assumes same: "phaseDeps2 p = phaseDeps2 r"
    and v: "session_view r = (Some T, True, ph, i, Num k, tm)"
    and ph: "ph = Prep \<or> ph = Hold" and i: "i < length T" and k: "0 < k"
    and armed: "countdownDeps2 p = countdownDeps2 r \<Longrightarrow> tm = Some (Num k)"
  shows "session_view (settle2 p r) = (Some T, True, ph, i, Num k, Some (Num k)) \<and>
         cues (settle2 p r) = cues r"
proof (cases "countdownDeps2 p = countdownDeps2 r")
  case True
  with same armed v show ?thesis
    by (simp add: settle2_stop)
next
  case False
  define r' where "r' = countdownEffect2 r (r\<lparr>timerId := None\<rparr>)"
  from same False have st: "settle2 p r = settle2 r r'"
    by (simp add: settle2_step commit2_countdown r'_def)
  from session_view_countdown_effect [OF v ph i] k
  have w: "session_view r' = (Some T, True, ph, i, Num k, Some (Num k))"
    by (simp add: r'_def)
  from cues_countdown_effect [OF v ph i] k have c: "cues r' = cues r"
    by (simp add: r'_def)
  from v w have "phaseDeps2 r = phaseDeps2 r'" "countdownDeps2 r = countdownDeps2 r'"
    by (simp_all add: phaseDeps2_def countdownDeps2_def session_view_def)
  then have "settle2 r r' = r'"
    by (rule settle2_stop)
  with st w c show ?thesis
    by simp
qed

lemma settle2_load:
  assumes c1: "phaseDeps2 p \<noteq> phaseDeps2 r"
    and v: "session_view r = (Some T, True, ph, i, Num k, tm)"
    and ph: "ph = Prep \<or> ph = Hold" and i: "i < length T" and k: "0 < k"
    and d: "0 < duration2 T ph i"
  shows "session_view (settle2 p r) =
           (Some T, True, ph, i, Num (duration2 T ph i), Some (Num (duration2 T ph i))) \<and>
         cues (settle2 p r) = cues r @ [PlayStartSound]"
proof -
  define r' where "r' = countdownEffect2 r (phaseEffect2 r (r\<lparr>timerId := None\<rparr>))"
  from c1 have st: "settle2 p r = settle2 r r'"
    by (simp add: settle2_step commit2_both r'_def)
  from session_view_both_effects [OF v ph i] k
  have w: "session_view r' = (Some T, True, ph, i, Num (duration2 T ph i), Some (Num k))"
    by (simp add: r'_def)
  from cues_both_effects [OF v ph i] k have c: "cues r' = cues r @ [PlayStartSound]"
    by (simp add: r'_def)
  from v w have same: "phaseDeps2 r = phaseDeps2 r'"
    by (simp add: phaseDeps2_def session_view_def)
  have "Some (Num k) = Some (Num (duration2 T ph i))" if "countdownDeps2 r = countdownDeps2 r'"
    using that v w by (simp add: countdownDeps2_def session_view_def)
  from settle2_arm [OF same w ph i d this] st c show ?thesis
    by simp
qed

lemma settle2_skip_prep:
  assumes c1: "phaseDeps2 p \<noteq> phaseDeps2 r"
    and v: "session_view r = (Some T, True, Prep, i, Num 0, tm)"
    and i: "i < length T" and pos: "0 < prep (T ! i)" "0 < hold (T ! i)"
  shows "session_view (settle2 p r) =
           (Some T, True, Hold, i, Num (hold (T ! i)), Some (Num (hold (T ! i)))) \<and>
         cues (settle2 p r) = cues r @ [PlayStartSound, PlayEndSound, PlayStartSound]"
proof -
  define r' where "r' = countdownEffect2 r (phaseEffect2 r (r\<lparr>timerId := None\<rparr>))"
  from c1 have st: "settle2 p r = settle2 r r'"
    by (simp add: settle2_step commit2_both r'_def)
  from session_view_both_effects [OF v _ i]
  have w: "session_view r' = (Some T, True, Hold, i, Num (prep (T ! i)), None)"
    by (simp add: r'_def)
  from cues_both_effects [OF v _ i] have c: "cues r' = cues r @ [PlayStartSound, PlayEndSound]"
    by (simp add: r'_def)
  from v w have diff: "phaseDeps2 r \<noteq> phaseDeps2 r'"
    by (simp add: phaseDeps2_def session_view_def)
  from pos have d: "0 < duration2 T Hold i"
    by (simp add: duration2_def)
  from settle2_load [OF diff w _ i pos(1) d] st c show ?thesis
    by (simp add: duration2_def)
qed

lemma settle2_hold_end:
  assumes same: "phaseDeps2 p = phaseDeps2 r" and c2: "countdownDeps2 p \<noteq> countdownDeps2 r"
    and v: "session_view r = (Some T, True, Hold, i, Num 0, tm)"
    and i: "Suc i < length T" and pos: "0 < prep (T ! Suc i)" "0 < hold (T ! Suc i)"
  shows "session_view (settle2 p r) =
           (Some T, True, Hold, Suc i, Num (hold (T ! Suc i)), Some (Num (hold (T ! Suc i)))) \<and>
         cues (settle2 p r) =
           cues r @ [PlayEndSound, PlayStartSound, PlayEndSound, PlayStartSound]"
proof -
  define r' where "r' = countdownEffect2 r (r\<lparr>timerId := None\<rparr>)"
  from same c2 have st: "settle2 p r = settle2 r r'"
    by (simp add: settle2_step commit2_countdown r'_def)
  from i have i': "i < length T"
    by simp
  from session_view_countdown_effect [OF v _ i'] i
  have w: "session_view r' = (Some T, True, Prep, Suc i, Num 0, None)"
    by (simp add: r'_def)
  from cues_countdown_effect [OF v _ i'] have c: "cues r' = cues r @ [PlayEndSound]"
    by (simp add: r'_def)
  from v w have diff: "phaseDeps2 r \<noteq> phaseDeps2 r'"
    by (simp add: phaseDeps2_def session_view_def)
  from settle2_skip_prep [OF diff w i pos] st c show ?thesis
    by simp
qed

lemma tick2_count:
  assumes v: "session_view s = (Some T, True, ph, i, Num k, Some (Num k))"
    and ph: "ph = Prep \<or> ph = Hold" and i: "i < length T" and k: "1 < k"
  shows "session_view (tick2 s) = (Some T, True, ph, i, Num (k - 1), Some (Num (k - 1)))"
proof -
  have w: "session_view (timeout2 s) = (Some T, True, ph, i, Num (k - 1), None)"
    using v by (simp add: timeout2_def session_view_def)
  from v w have same: "phaseDeps2 s = phaseDeps2 (timeout2 s)"
    and diff: "countdownDeps2 s \<noteq> countdownDeps2 (timeout2 s)"
    by (simp_all add: phaseDeps2_def countdownDeps2_def session_view_def)
  from k have "0 < k - 1"
    by simp
  from settle2_arm [OF same w ph i this] diff show ?thesis
    by (simp add: tick2_def)
qed

lemma ticks2_count:
  assumes v: "session_view s = (Some T, True, ph, i, Num k, Some (Num k))"
    and ph: "ph = Prep \<or> ph = Hold" and i: "i < length T"
  shows "int n < k \<Longrightarrow>
    session_view ((tick2 ^^ n) s) = (Some T, True, ph, i, Num (k - int n), Some (Num (k - int n)))"
proof (induction n)
  case 0
  with v show ?case by simp
next
  case (Suc n)
  then have "session_view ((tick2 ^^ n) s) = (Some T, True, ph, i, Num (k - int n), Some (Num (k - int n)))"
    and "1 < k - int n"
    by simp_all
  from tick2_count [OF this(1) ph i this(2)] show ?case
    by (simp add: algebra_simps)
qed

lemma tick2_hold_end:
  assumes v: "session_view s = (Some T, True, Hold, i, Num 1, Some (Num 1))"
    and i: "Suc i < length T" and pos: "0 < prep (T ! Suc i)" "0 < hold (T ! Suc i)"
  shows "session_view (tick2 s) =
           (Some T, True, Hold, Suc i, Num (hold (T ! Suc i)), Some (Num (hold (T ! Suc i))))"
proof -
  have w: "session_view (timeout2 s) = (Some T, True, Hold, i, Num 0, None)"
    using v by (simp add: timeout2_def session_view_def)
  from v w have same: "phaseDeps2 s = phaseDeps2 (timeout2 s)"
    and diff: "countdownDeps2 s \<noteq> countdownDeps2 (timeout2 s)"
    by (simp_all add: phaseDeps2_def countdownDeps2_def session_view_def)
  from settle2_hold_end [OF same diff w i pos] show ?thesis
    by (simp add: tick2_def)
qed

lemma ticks2_hold:
  assumes v: "session_view s = (Some T, True, Hold, i, Num k, Some (Num k))" and k: "0 < k"
    and i: "Suc i < length T" and pos: "0 < prep (T ! Suc i)" "0 < hold (T ! Suc i)"
  shows "session_view ((tick2 ^^ nat k) s) =
           (Some T, True, Hold, Suc i, Num (hold (T ! Suc i)), Some (Num (hold (T ! Suc i))))"
proof -
  from k obtain m where m: "nat k = Suc m" "int m = k - 1"
    by (cases "nat k") auto
  from i have i': "i < length T"
    by simp
  from m have "int m < k"
    by simp
  from ticks2_count [OF v _ i' this] m
  have "session_view ((tick2 ^^ m) s) = (Some T, True, Hold, i, Num 1, Some (Num 1))"
    by simp
  from tick2_hold_end [OF this i pos] m show ?thesis
    by simp
qed


lemma submit2_90:
  "session_view (submit2 90 initial2) = (Some (generateCo2Table 90), False, Ready, 0, Num 0, None) \<and>
   cues (submit2 90 initial2) = []"
proof -
  define r where "r = onSubmit2 90 initial2"
  have v: "session_view r = (Some (generateCo2Table 90), False, Ready, 0, Num 0, None)" "cues r = []"
    by (simp_all add: r_def onSubmit2_def initial2_def resetSessionState2_def session_view_def)
  then have "\<not> isSessionActive r"
    by (simp add: session_view_def)
  from settle2_inactive [OF this, of initial2] v show ?thesis
    unfolding submit2_def r_def [symmetric] by (auto simp: session_view_def)
qed

lemma start2_90:
  "session_view (start2 (submit2 90 initial2)) =
     (Some (generateCo2Table 90), True, Hold, 0, Num 54, Some (Num 54)) \<and>
   cues (start2 (submit2 90 initial2)) = [PlayStartSound, PlayEndSound, PlayStartSound]"
proof -
  define s where "s = submit2 90 initial2"
  from submit2_90 have s: "session_view s = (Some (generateCo2Table 90), False, Ready, 0, Num 0, None)"
    "cues s = []"
    by (simp_all add: s_def)
  then have v: "session_view (startSession2 s) = (Some (generateCo2Table 90), True, Prep, 0, Num 0, None)"
    and c: "cues (startSession2 s) = []"
    by (simp_all add: startSession2_def session_view_def)
  from s v have diff: "phaseDeps2 s \<noteq> phaseDeps2 (startSession2 s)"
    by (simp add: phaseDeps2_def session_view_def)
  have "0 < length (generateCo2Table 90)" "0 < prep (generateCo2Table 90 ! 0)"
    "0 < hold (generateCo2Table 90 ! 0)"
    by (simp_all add: generateCo2Table_90)
  from settle2_skip_prep [OF diff v this] c show ?thesis
    unfolding start2_def s_def [symmetric] by (simp add: generateCo2Table_90)
qed

text \<open>
  Claim C1 at the failing input: the CO2 table for a personal best of 90 seconds (prep
  129, 114, 99, ... and hold 54 in every round).  Starting the session fires the
  prep-to-hold transition at once, before any tick, with an end sound between two start
  sounds; after the 54 ticks of the first hold the controller is in hold of the second
  round, and after 129 ticks, the first round's prep duration, it is in hold of the third
  round with 33 seconds left.
\<close>

theorem two_phase_skips_prep:
  "prep (generateCo2Table 90 ! 0) = 129 \<and> hold (generateCo2Table 90 ! 0) = 54 \<and>
   currentPhase (start2 (submit2 90 initial2)) = Hold \<and>
   currentRoundIndex (start2 (submit2 90 initial2)) = 0 \<and>
   timeRemaining (start2 (submit2 90 initial2)) = Num 54 \<and>
   cues (start2 (submit2 90 initial2)) = [PlayStartSound, PlayEndSound, PlayStartSound] \<and>
   currentPhase ((tick2 ^^ 54) (start2 (submit2 90 initial2))) = Hold \<and>
   currentRoundIndex ((tick2 ^^ 54) (start2 (submit2 90 initial2))) = 1 \<and>
   timeRemaining ((tick2 ^^ 54) (start2 (submit2 90 initial2))) = Num 54 \<and>
   currentPhase ((tick2 ^^ 129) (start2 (submit2 90 initial2))) = Hold \<and>
   currentRoundIndex ((tick2 ^^ 129) (start2 (submit2 90 initial2))) = 2 \<and>
   timeRemaining ((tick2 ^^ 129) (start2 (submit2 90 initial2))) = Num 33"
proof -
  define T where "T = generateCo2Table 90"
  define s where "s = start2 (submit2 90 initial2)"
  have T: "length T = 8" "prep (T ! 0) = 129" "hold (T ! 0) = 54"
    "prep (T ! 1) = 114" "hold (T ! 1) = 54" "prep (T ! 2) = 99" "hold (T ! 2) = 54"
    by (simp_all add: T_def generateCo2Table_90)
  from start2_90 have v0: "session_view s = (Some T, True, Hold, 0, Num 54, Some (Num 54))"
    and c0: "cues s = [PlayStartSound, PlayEndSound, PlayStartSound]"
    by (simp_all add: s_def T_def)
  from ticks2_hold [OF v0] T
  have v1: "session_view ((tick2 ^^ 54) s) = (Some T, True, Hold, 1, Num 54, Some (Num 54))"
    by simp
  from ticks2_hold [OF v1] T
  have v2: "session_view ((tick2 ^^ 54) ((tick2 ^^ 54) s)) = (Some T, True, Hold, 2, Num 54, Some (Num 54))"
    by (simp add: numeral_2_eq_2)
  from ticks2_count [OF v2, of 21] T
  have v3: "session_view ((tick2 ^^ 21) ((tick2 ^^ 54) ((tick2 ^^ 54) s))) =
      (Some T, True, Hold, 2, Num 33, Some (Num 33))"
    by simp
  have "(tick2 ^^ 129) s = (tick2 ^^ 21) ((tick2 ^^ 54) ((tick2 ^^ 54) s))"
    by (simp add: funpow_add [symmetric, unfolded o_def, THEN fun_cong] flip: funpow_add)
  with v3 have v3': "session_view ((tick2 ^^ 129) s) = (Some T, True, Hold, 2, Num 33, Some (Num 33))"
    by simp
  from T v0 c0 v1 v3' show ?thesis
    unfolding s_def [symmetric] T_def [symmetric] by (simp add: session_view_def)
qed







section \<open>Exact runs of the three-phase controller\<close>

text \<open>
  A render of the three-phase controller that does not advance the phase only re-arms or
  clears the timeout; a countdown at 0 advances once, to a phase whose duration is not 0.
\<close>

lemma commit3_no_advance:
  assumes "\<not> (isSessionActive r \<and> timeRemaining r = Num 0)"
  shows "commit3 r =
     r\<lparr>timerId := (if \<not> isSessionActive r \<or> js_le_zero (timeRemaining r) then None
                    else Some (timeRemaining r))\<rparr>"
  using assms
  by (auto simp: commit3_def timerEffect3_def endEffect3_def advancePhase3_def js_is_zero_iff
      split: option.split)

lemma settle3_no_advance:
  assumes "\<not> (isSessionActive r \<and> timeRemaining r = Num 0)"
    and "reactState3 p \<noteq> reactState3 r"
  shows "settle3 p r =
     r\<lparr>timerId := (if \<not> isSessionActive r \<or> js_le_zero (timeRemaining r) then None
                    else Some (timeRemaining r))\<rparr>"
proof -
  from assms(1) have "\<not> (isSessionActive r \<and> timeRemaining r = Num 0 \<and> tableData r \<noteq> None)"
    by blast
  from settle3_one_commit [OF commit3_rest [OF this], of p] assms(2)
    commit3_no_advance [OF assms(1)]
  show ?thesis
    by simp
qed

lemma settle3_advance:
  assumes v: "session_view r = (Some T, True, ph, i, Num 0, tm)"
    and d: "reactState3 p \<noteq> reactState3 r"
    and i: "nextRoundIndex3 ph i < length T"
    and rec: "ph = Hold \<longrightarrow> recovery (T ! i) \<noteq> Some 0"
    and nz: "round_field (T ! nextRoundIndex3 ph i) (nextPhase3 ph) \<noteq> Num 0"
    and ch: "nextPhase3 ph \<noteq> ph"
  shows "session_view (settle3 p r) =
     (Some T, True, nextPhase3 ph, nextRoundIndex3 ph i,
      round_field (T ! nextRoundIndex3 ph i) (nextPhase3 ph),
      if js_le_zero (round_field (T ! nextRoundIndex3 ph i) (nextPhase3 ph)) then None
      else Some (round_field (T ! nextRoundIndex3 ph i) (nextPhase3 ph)))"
proof -
  define r' where "r' = commit3 r"
  from d have st: "settle3 p r = settle3 r r'"
    by (subst settle3.simps) (simp add: r'_def)
  have w: "session_view r' =
      (Some T, True, nextPhase3 ph, nextRoundIndex3 ph i,
       round_field (T ! nextRoundIndex3 ph i) (nextPhase3 ph), None)"
    using v i rec
    by (auto simp: r'_def commit3_def timerEffect3_def endEffect3_def advancePhase3_def
        session_view_def Let_def nextRoundIndex3_def)
  from v w ch have d': "reactState3 r \<noteq> reactState3 r'"
    by (simp add: reactState3_def session_view_def)
  from w nz have "\<not> (isSessionActive r' \<and> timeRemaining r' = Num 0)"
    by (simp add: session_view_def)
  from settle3_no_advance [OF this d'] st w show ?thesis
    by (simp add: session_view_def)
qed

lemma tick3_count:
  assumes v: "session_view s = (Some T, True, ph, i, Num k, Some (Num k))" and k: "1 < k"
  shows "session_view (tick3 s) = (Some T, True, ph, i, Num (k - 1), Some (Num (k - 1)))"
proof -
  have w: "session_view (timeout3 s) = (Some T, True, ph, i, Num (k - 1), None)"
    using v by (simp add: timeout3_def session_view_def)
  from v w have d: "reactState3 s \<noteq> reactState3 (timeout3 s)"
    by (simp add: reactState3_def session_view_def)
  from w k have "\<not> (isSessionActive (timeout3 s) \<and> timeRemaining (timeout3 s) = Num 0)"
    by (simp add: session_view_def)
  from settle3_no_advance [OF this d] w k show ?thesis
    by (simp add: tick3_def session_view_def)
qed

lemma ticks3_count:
  assumes v: "session_view s = (Some T, True, ph, i, Num k, Some (Num k))"
  shows "int n < k \<Longrightarrow>
    session_view ((tick3 ^^ n) s) = (Some T, True, ph, i, Num (k - int n), Some (Num (k - int n)))"
proof (induction n)
  case 0
  with v show ?case by simp
next
  case (Suc n)
  then have "session_view ((tick3 ^^ n) s) =
      (Some T, True, ph, i, Num (k - int n), Some (Num (k - int n)))"
    and "1 < k - int n"
    by simp_all
  from tick3_count [OF this] show ?case
    by (simp add: algebra_simps)
qed

lemma tick3_phase_end:
  assumes v: "session_view s = (Some T, True, ph, i, Num 1, Some (Num 1))"
    and i: "nextRoundIndex3 ph i < length T"
    and rec: "ph = Hold \<longrightarrow> recovery (T ! i) \<noteq> Some 0"
    and nz: "round_field (T ! nextRoundIndex3 ph i) (nextPhase3 ph) \<noteq> Num 0"
    and ch: "nextPhase3 ph \<noteq> ph"
  shows "session_view (tick3 s) =
     (Some T, True, nextPhase3 ph, nextRoundIndex3 ph i,
      round_field (T ! nextRoundIndex3 ph i) (nextPhase3 ph),
      if js_le_zero (round_field (T ! nextRoundIndex3 ph i) (nextPhase3 ph)) then None
      else Some (round_field (T ! nextRoundIndex3 ph i) (nextPhase3 ph)))"
proof -
  have w: "session_view (timeout3 s) = (Some T, True, ph, i, Num 0, None)"
    using v by (simp add: timeout3_def session_view_def)
  from v w have d: "reactState3 s \<noteq> reactState3 (timeout3 s)"
    by (simp add: reactState3_def session_view_def)
  from settle3_advance [OF w d i rec nz ch] show ?thesis
    by (simp add: tick3_def)
qed

lemma ticks3_phase:
  assumes v: "session_view s = (Some T, True, ph, i, Num k, Some (Num k))" and k: "0 < k"
    and i: "nextRoundIndex3 ph i < length T"
    and rec: "ph = Hold \<longrightarrow> recovery (T ! i) \<noteq> Some 0"
    and nz: "round_field (T ! nextRoundIndex3 ph i) (nextPhase3 ph) \<noteq> Num 0"
    and ch: "nextPhase3 ph \<noteq> ph"
  shows "session_view ((tick3 ^^ nat k) s) =
     (Some T, True, nextPhase3 ph, nextRoundIndex3 ph i,
      round_field (T ! nextRoundIndex3 ph i) (nextPhase3 ph),
      if js_le_zero (round_field (T ! nextRoundIndex3 ph i) (nextPhase3 ph)) then None
      else Some (round_field (T ! nextRoundIndex3 ph i) (nextPhase3 ph)))"
proof -
  from k obtain m where m: "nat k = Suc m" "int m = k - 1"
    by (cases "nat k") auto
  then have "int m < k"
    by simp
  from ticks3_count [OF v this] m
  have "session_view ((tick3 ^^ m) s) = (Some T, True, ph, i, Num 1, Some (Num 1))"
    by simp
  from tick3_phase_end [OF this i rec nz ch] m show ?thesis
    by simp
qed

lemma tick3_undefined:
  assumes v: "session_view s = (Some T, True, ph, i, Undefined, Some Undefined)"
  shows "session_view (tick3 s) = (Some T, True, ph, i, NaN, Some NaN)"
proof -
  have w: "session_view (timeout3 s) = (Some T, True, ph, i, NaN, None)"
    using v by (simp add: timeout3_def session_view_def)
  from v w have d: "reactState3 s \<noteq> reactState3 (timeout3 s)"
    by (simp add: reactState3_def session_view_def)
  from w have "\<not> (isSessionActive (timeout3 s) \<and> timeRemaining (timeout3 s) = Num 0)"
    by (simp add: session_view_def)
  from settle3_no_advance [OF this d] w show ?thesis
    by (simp add: tick3_def session_view_def)
qed

lemma tick3_NaN:
  assumes v: "session_view s = (Some T, True, ph, i, NaN, Some NaN)"
  shows "session_view (tick3 s) = (Some T, True, ph, i, NaN, None)"
proof -
  have w: "session_view (timeout3 s) = (Some T, True, ph, i, NaN, None)"
    using v by (simp add: timeout3_def session_view_def)
  from v have "reactState3 s = reactState3 (timeout3 s)"
    by (simp add: reactState3_def session_view_def timeout3_def)
  then have "settle3 s (timeout3 s) = timeout3 s"
    by (subst settle3.simps) simp
  with w show ?thesis
    by (simp add: tick3_def)
qed

lemma tick3_no_timeout: "timerId s = None \<Longrightarrow> tick3 s = s"
  by (simp add: tick3_def timeout3_def settle3_same)


lemma start3_90:
  "\<exists>s. start3 (submit3 1 30 initial3) = Inr s \<and>
       session_view s = (Some (generateCo2Table 90), True, Prep, 0, Num 129, Some (Num 129))"
proof -
  define r where "r = onSubmit3 1 30 initial3"
  have v: "session_view r = (Some (generateCo2Table 90), False, Prep, 0, Num 0, None)"
    by (simp add: r_def onSubmit3_def initial3_def session_view_def Let_def)
  then have d: "reactState3 initial3 \<noteq> reactState3 r"
    by (simp add: reactState3_def session_view_def initial3_def)
  from v have "\<not> (isSessionActive r \<and> timeRemaining r = Num 0)"
    by (simp add: session_view_def)
  from settle3_no_advance [OF this d] v
  have s0: "session_view (submit3 1 30 initial3) =
      (Some (generateCo2Table 90), False, Prep, 0, Num 0, None)"
    by (simp add: submit3_def r_def [symmetric] session_view_def)
  define s0 where "s0 = submit3 1 30 initial3"
  define s' where "s' = s0\<lparr>isSessionActive := True, currentRoundIndex := 0, currentPhase := Prep,
      timeRemaining := Num 129, cues := cues s0 @ [PlayStartSound]\<rparr>"
  from s0 have st: "startSession3 s0 = Inr s'"
    by (simp add: startSession3_def s0_def [symmetric] s'_def session_view_def array_get_def
        generateCo2Table_90)
  from s0 have w: "session_view s' = (Some (generateCo2Table 90), True, Prep, 0, Num 129, None)"
    by (simp add: s'_def s0_def [symmetric] session_view_def)
  with s0 have d': "reactState3 s0 \<noteq> reactState3 s'"
    by (simp add: reactState3_def session_view_def s0_def [symmetric])
  from w have "\<not> (isSessionActive s' \<and> timeRemaining s' = Num 0)"
    by (simp add: session_view_def)
  from settle3_no_advance [OF this d'] w
  have "session_view (settle3 s0 s') =
      (Some (generateCo2Table 90), True, Prep, 0, Num 129, Some (Num 129))"
    by (simp add: session_view_def)
  with st show ?thesis
    by (simp add: start3_def s0_def [symmetric])
qed

text \<open>
  Claim C3 at the failing input: the three-phase controller on the CO2 table for a
  personal best of 1 minute 30 seconds.  After the 129 ticks of the first prep and the 54
  ticks of the first hold the session is active in phase recovery with \<^verbatim>\<open>timeRemaining\<close>
  \<^verbatim>\<open>undefined\<close>; the next tick makes it \<^verbatim>\<open>NaN\<close>, and there it stays: the session remains
  active, no timeout is pending any more, and a tick changes nothing.
\<close>

theorem three_phase_countdown_undefined:
  "(\<exists>s. example_run3 129 = Inr s \<and> isSessionActive s \<and> currentPhase s = Hold \<and>
        currentRoundIndex s = 0 \<and> timeRemaining s = Num 54) \<and>
   (\<exists>s. example_run3 183 = Inr s \<and> isSessionActive s \<and> currentPhase s = Recovery \<and>
        currentRoundIndex s = 0 \<and> timeRemaining s = Undefined) \<and>
   (\<exists>s. example_run3 184 = Inr s \<and> isSessionActive s \<and> currentPhase s = Recovery \<and>
        timeRemaining s = NaN) \<and>
   (\<exists>s. example_run3 185 = Inr s \<and> isSessionActive s \<and> currentPhase s = Recovery \<and>
        timeRemaining s = NaN \<and> timerId s = None \<and> tick3 s = s)"
proof -
  define T where "T = generateCo2Table 90"
  from start3_90 obtain s where st: "start3 (submit3 1 30 initial3) = Inr s"
    and v0: "session_view s = (Some T, True, Prep, 0, Num 129, Some (Num 129))"
    by (auto simp: T_def)
  have run: "example_run3 n = Inr ((tick3 ^^ n) s)" for n
    by (simp add: example_run3_def st)
  have T: "length T = 8" "hold (T ! 0) = 54" "recovery (T ! 0) = None"
    by (simp_all add: T_def generateCo2Table_90)
  from ticks3_phase [OF v0] T
  have v1: "session_view ((tick3 ^^ 129) s) = (Some T, True, Hold, 0, Num 54, Some (Num 54))"
    by (simp add: nextPhase3_def nextRoundIndex3_def)
  from ticks3_phase [OF v1] T
  have v2: "session_view ((tick3 ^^ 54) ((tick3 ^^ 129) s)) =
      (Some T, True, Recovery, 0, Undefined, Some Undefined)"
    by (simp add: nextPhase3_def nextRoundIndex3_def)
  have "(tick3 ^^ 183) s = (tick3 ^^ 54) ((tick3 ^^ 129) s)"
    by (simp flip: funpow_add add: funpow_add [symmetric, unfolded o_def, THEN fun_cong])
  with v2 have v2': "session_view ((tick3 ^^ 183) s) =
      (Some T, True, Recovery, 0, Undefined, Some Undefined)"
    by simp
  have n184: "(tick3 ^^ 184) s = tick3 ((tick3 ^^ 183) s)"
    and n185: "(tick3 ^^ 185) s = tick3 ((tick3 ^^ 184) s)"
    by (simp_all flip: funpow.simps(2) [unfolded o_def, THEN fun_cong])
  from tick3_undefined [OF v2'] n184
  have v3: "session_view ((tick3 ^^ 184) s) = (Some T, True, Recovery, 0, NaN, Some NaN)"
    by simp
  from tick3_NaN [OF v3] n185
  have v4: "session_view ((tick3 ^^ 185) s) = (Some T, True, Recovery, 0, NaN, None)"
    by simp
  then have "timerId ((tick3 ^^ 185) s) = None"
    by (simp add: session_view_def)
  then have v5: "tick3 ((tick3 ^^ 185) s) = (tick3 ^^ 185) s"
    by (rule tick3_no_timeout)
  from v1 v2' v3 v4 v5 show ?thesis
    unfolding run by (simp add: session_view_def)
qed


section \<open>What the renders show in the two-phase controller\<close>

text \<open>
  In the two-phase controller the states in which the renders come to rest do keep the
  countdown inside the current phase: whenever the session is active after a start and
  any number of ticks, it is in prep or hold of a round of the table, with
  \<^verbatim>\<open>timeRemaining\<close> above 0 and at most the duration of that phase.
\<close>

lemma two_phase_settled_invariant:
  assumes "nonneg_table T" and "T \<noteq> []" and "tableData s = Some T"
    and "\<not> isSessionActive s" and "timeRemaining s = Num 0"
    and "isSessionActive ((tick2 ^^ n) (start2 s))"
  shows "(currentPhase ((tick2 ^^ n) (start2 s)) = Prep \<or>
          currentPhase ((tick2 ^^ n) (start2 s)) = Hold) \<and>
         currentRoundIndex ((tick2 ^^ n) (start2 s)) < length T \<and>
         (\<exists>k. timeRemaining ((tick2 ^^ n) (start2 s)) = Num k \<and> 0 < k \<and>
              k \<le> duration2 T (currentPhase ((tick2 ^^ n) (start2 s)))
                    (currentRoundIndex ((tick2 ^^ n) (start2 s))))"
proof -
  from ticks2_outcome [OF assms(1) start2_outcome [OF assms(1-5)], of n] assms(6)
  show ?thesis
    by (auto simp: outcome2_def done2_def session_view_def)
qed

text \<open>
  Between the two transitions that follow a start, one render shows phase hold with the
  prep duration as countdown.
\<close>

lemma two_phase_stale_countdown_rendered:
  "currentPhase (commit2 (submit2 90 initial2) (startSession2 (submit2 90 initial2))) = Hold \<and>
   timeRemaining (commit2 (submit2 90 initial2) (startSession2 (submit2 90 initial2))) = Num 129 \<and>
   hold (generateCo2Table 90 ! 0) = 54"
proof -
  define s where "s = submit2 90 initial2"
  from submit2_90 have s: "session_view s = (Some (generateCo2Table 90), False, Ready, 0, Num 0, None)"
    by (simp add: s_def)
  then have v: "session_view (startSession2 s) =
      (Some (generateCo2Table 90), True, Prep, 0, Num 0, None)"
    by (simp add: startSession2_def session_view_def)
  from s v have diff: "phaseDeps2 s \<noteq> phaseDeps2 (startSession2 s)"
    by (simp add: phaseDeps2_def session_view_def)
  have "0 < length (generateCo2Table 90)"
    by (simp add: generateCo2Table_90)
  from session_view_both_effects [OF v _ this] commit2_both [OF diff] show ?thesis
    unfolding s_def [symmetric] by (simp add: session_view_def generateCo2Table_90)
qed

text \<open>
  Claim C8 at the failing input: the two-phase controller with the CO2 table for a
  personal best of 90 seconds bound (first prep 129 seconds, first hold 54).  The handler
  sets round index 0 and phase \<^verbatim>\<open>prep\<close>, leaving \<^verbatim>\<open>timeRemaining\<close> at 0 and playing nothing;
  the first render after it loads the 129 seconds and plays the start sound, but has
  already moved to phase \<^verbatim>\<open>hold\<close> and played the end sound; and when the renders have come
  to rest, before any tick, the session is in the hold of round 1 with 54 seconds left.
  So start never leaves the session in \<^verbatim>\<open>prep\<close> with the first round's prep duration.
\<close>

theorem two_phase_start_lands_in_hold:
  "tableData (submit2 90 initial2) = Some (generateCo2Table 90) \<and>
   generateCo2Table 90 \<noteq> [] \<and>
   prep (generateCo2Table 90 ! 0) = 129 \<and>
   currentPhase (startSession2 (submit2 90 initial2)) = Prep \<and>
   currentRoundIndex (startSession2 (submit2 90 initial2)) = 0 \<and>
   timeRemaining (startSession2 (submit2 90 initial2)) = Num 0 \<and>
   cues (startSession2 (submit2 90 initial2)) = [] \<and>
   timeRemaining (commit2 (submit2 90 initial2) (startSession2 (submit2 90 initial2))) = Num 129 \<and>
   cues (commit2 (submit2 90 initial2) (startSession2 (submit2 90 initial2))) =
     [PlayStartSound, PlayEndSound] \<and>
   currentPhase (commit2 (submit2 90 initial2) (startSession2 (submit2 90 initial2))) = Hold \<and>
   currentPhase (start2 (submit2 90 initial2)) = Hold \<and>
   currentRoundIndex (start2 (submit2 90 initial2)) = 0 \<and>
   timeRemaining (start2 (submit2 90 initial2)) = Num 54 \<and>
   cues (start2 (submit2 90 initial2)) = [PlayStartSound, PlayEndSound, PlayStartSound]"
proof -
  define s where "s = submit2 90 initial2"
  from submit2_90 have s: "session_view s = (Some (generateCo2Table 90), False, Ready, 0, Num 0, None)"
    "cues s = []"
    by (simp_all add: s_def)
  then have v: "session_view (startSession2 s) =
      (Some (generateCo2Table 90), True, Prep, 0, Num 0, None)"
    and c: "cues (startSession2 s) = []"
    by (simp_all add: startSession2_def session_view_def)
  from s v have diff: "phaseDeps2 s \<noteq> phaseDeps2 (startSession2 s)"
    by (simp add: phaseDeps2_def session_view_def)
  have len: "0 < length (generateCo2Table 90)"
    by (simp add: generateCo2Table_90)
  from session_view_both_effects [OF v _ len] commit2_both [OF diff]
  have r: "session_view (commit2 s (startSession2 s)) =
      (Some (generateCo2Table 90), True, Hold, 0, Num 129, None)"
    by (simp add: generateCo2Table_90)
  from cues_both_effects [OF v _ len] commit2_both [OF diff] c
  have rc: "cues (commit2 s (startSession2 s)) = [PlayStartSound, PlayEndSound]"
    by simp
  from start2_90 have f: "session_view (start2 s) =
      (Some (generateCo2Table 90), True, Hold, 0, Num 54, Some (Num 54))"
    "cues (start2 s) = [PlayStartSound, PlayEndSound, PlayStartSound]"
    by (simp_all add: s_def)
  from s v c r rc f show ?thesis
    unfolding s_def [symmetric] by (simp add: session_view_def generateCo2Table_90)
qed

end
